theory Spec2Isabelle
  imports Main "HOL-Library.Word"
begin

unbundle bit_operations_syntax

section \<open>Common types\<close>

text \<open>
  Bytes are 8-bit words. Go's \<open>int\<close> is modelled by \<open>int\<close>: every integer the code
  computes is an index into, or a count over, one slice, so it stays far inside 64 bits.
  Every runtime panic of the Go code (index or slice bounds out of range, an explicit
  \<open>panic\<close>) is an error value.
\<close>

type_synonym byte = "8 word"

datatype error =
    ErrProgramNoMemory
  | ErrCodeBracketImbalance
  | ErrVarNotDefined string
  | IndexOutOfRange
  | Panic string

definition bindE :: "error + 'a \<Rightarrow> ('a \<Rightarrow> error + 'b) \<Rightarrow> error + 'b" where
  "bindE m f = (case m of Inl e \<Rightarrow> Inl e | Inr x \<Rightarrow> f x)"

text \<open>The bytes of a string literal, as Go's \<open>[]byte("...")\<close>.\<close>

definition bytes :: "string \<Rightarrow> byte list" where
  "bytes s = map (\<lambda>c. word_of_nat (of_char c)) s"

text \<open>The eight instruction bytes, by their ASCII codes; the terminator is the zero byte.\<close>

abbreviation chRight :: byte where "chRight \<equiv> 62"   \<comment> \<open>\<open>>\<close>\<close>
abbreviation chLeft :: byte where "chLeft \<equiv> 60"    \<comment> \<open>\<open><\<close>\<close>
abbreviation chPlus :: byte where "chPlus \<equiv> 43"    \<comment> \<open>\<open>+\<close>\<close>
abbreviation chMinus :: byte where "chMinus \<equiv> 45"  \<comment> \<open>\<open>-\<close>\<close>
abbreviation chOpen :: byte where "chOpen \<equiv> 91"    \<comment> \<open>\<open>[\<close>\<close>
abbreviation chClose :: byte where "chClose \<equiv> 93"   \<comment> \<open>\<open>]\<close>\<close>
abbreviation chDot :: byte where "chDot \<equiv> 46"      \<comment> \<open>\<open>.\<close>\<close>
abbreviation chComma :: byte where "chComma \<equiv> 44"   \<comment> \<open>\<open>,\<close>\<close>

section \<open>The virtual machine\<close>

subsection \<open>Op\<close>

text \<open>\<open>type Op struct { code Opcode; args [8]byte }\<close>. The array is a list; every Op the
  machine builds has eight argument bytes.\<close>

record Op =
  code :: byte
  args :: "byte list"

text \<open>\<open>op.args[len(op.args)-i-1]\<close>, panicking when the index is out of range.\<close>

definition Op_Byte :: "Op \<Rightarrow> int \<Rightarrow> error + byte" where
  "Op_Byte op i =
     (let j = int (length (args op)) - i - 1
      in if 0 \<le> j \<and> j < int (length (args op)) then Inr (args op ! nat j)
         else Inl IndexOutOfRange)"

text \<open>\<open>uint16(op.Byte(1))<<8 | uint16(op.Byte(0))\<close>; the parameter \<open>i\<close> is not used.\<close>

definition Op_Word :: "Op \<Rightarrow> int \<Rightarrow> error + 16 word" where
  "Op_Word op i =
     bindE (Op_Byte op 1) (\<lambda>b1.
     bindE (Op_Byte op 0) (\<lambda>b0.
       Inr (push_bit 8 (ucast b1) OR ucast b0)))"

definition Op_QWord :: "Op \<Rightarrow> int \<Rightarrow> error + 32 word" where
  "Op_QWord op i =
     bindE (Op_Byte op 3) (\<lambda>b3.
     bindE (Op_Byte op 2) (\<lambda>b2.
     bindE (Op_Byte op 1) (\<lambda>b1.
     bindE (Op_Byte op 0) (\<lambda>b0.
       Inr (push_bit 24 (ucast b3) OR push_bit 16 (ucast b2) OR
            push_bit 8 (ucast b1) OR ucast b0)))))"

subsection \<open>Loading a program\<close>

text \<open>The loop of \<open>ValidateBrainfuck\<close>: \<open>depth\<close> after scanning the bytes.\<close>

fun bracketDepth :: "byte list \<Rightarrow> int \<Rightarrow> int" where
  "bracketDepth [] depth = depth"
| "bracketDepth (c # cs) depth =
     (if c = chOpen then bracketDepth cs (depth + 1)
      else if c = chClose then bracketDepth cs (depth - 1)
      else bracketDepth cs depth)"

definition ValidateBrainfuck :: "byte list \<Rightarrow> error option" where
  "ValidateBrainfuck input =
     (if bracketDepth input 0 \<noteq> 0 then Some ErrCodeBracketImbalance else None)"

text \<open>The machine state. \<open>clockRate\<close> only paces execution and is left out.\<close>

record Program =
  memory :: "byte list"
  dataStart :: int
  pc :: int
  r8a :: byte
  r8b :: byte
  r16a :: "16 word"
  r16b :: "16 word"
  r32a :: "32 word"
  r32b :: "32 word"
  memPtr :: int

text \<open>The predicate of the \<open>bytes.Map\<close> call: the eight instruction bytes are kept, every
  other byte is dropped.\<close>

definition isInstr :: "byte \<Rightarrow> bool" where
  "isInstr r \<longleftrightarrow> r = chDot \<or> r = chComma \<or> r = chPlus \<or> r = chMinus \<or> r = chRight \<or>
     r = chLeft \<or> r = chOpen \<or> r = chClose"

definition NewProgram :: "byte list \<Rightarrow> error + Program" where
  "NewProgram input =
     (case ValidateBrainfuck input of
        Some err \<Rightarrow> Inl err
      | None \<Rightarrow>
          let kept = filter isInstr input;
              start = int (length kept) + 10
          in Inr \<lparr> memory = kept @ replicate (nat (start + 30000) - length kept) 0,
                   dataStart = start, pc = 0,
                   r8a = 0, r8b = 0, r16a = 0, r16b = 0, r32a = 0, r32b = 0,
                   memPtr = start \<rparr>)"

definition CodeSection :: "Program \<Rightarrow> byte list" where
  "CodeSection p = take (nat (dataStart p)) (memory p)"

definition DataSection :: "Program \<Rightarrow> byte list" where
  "DataSection p = drop (nat (dataStart p)) (memory p)"

subsection \<open>Tape pointer and memory access\<close>

definition Right :: "Program \<Rightarrow> Program" where
  "Right p =
     (let m = memPtr p + 1
      in if m \<ge> int (length (memory p)) then p\<lparr>memPtr := 0\<rparr> else p\<lparr>memPtr := m\<rparr>)"

definition Left :: "Program \<Rightarrow> Program" where
  "Left p =
     (let m = memPtr p - 1
      in if m < 0 then p\<lparr>memPtr := int (length (memory p)) - 1\<rparr> else p\<lparr>memPtr := m\<rparr>)"

definition inBounds :: "Program \<Rightarrow> int \<Rightarrow> bool" where
  "inBounds p idx \<longleftrightarrow> 0 \<le> idx \<and> idx < int (length (memory p))"

definition Program_Byte :: "Program \<Rightarrow> int \<Rightarrow> error + byte" where
  "Program_Byte p idx =
     (if inBounds p idx then Inr (memory p ! nat idx) else Inl IndexOutOfRange)"

definition SetByte :: "Program \<Rightarrow> int \<Rightarrow> byte \<Rightarrow> error + Program" where
  "SetByte p idx v =
     (if inBounds p idx then Inr (p\<lparr>memory := (memory p)[nat idx := v]\<rparr>)
      else Inl IndexOutOfRange)"

definition Program_Word :: "Program \<Rightarrow> int \<Rightarrow> error + 16 word" where
  "Program_Word p idx =
     bindE (Program_Byte p (idx - 1)) (\<lambda>hi.
     bindE (Program_Byte p idx) (\<lambda>lo.
       Inr (push_bit 8 (ucast hi) OR ucast lo)))"

definition SetWord :: "Program \<Rightarrow> int \<Rightarrow> 16 word \<Rightarrow> error + Program" where
  "SetWord p idx v =
     bindE (SetByte p (idx - 1) (ucast (drop_bit 8 v))) (\<lambda>p1.
       SetByte p1 idx (ucast v))"

definition Program_QWord :: "Program \<Rightarrow> int \<Rightarrow> error + 32 word" where
  "Program_QWord p idx =
     bindE (Program_Byte p (idx - 3)) (\<lambda>b3.
     bindE (Program_Byte p (idx - 2)) (\<lambda>b2.
     bindE (Program_Byte p (idx - 1)) (\<lambda>b1.
     bindE (Program_Byte p idx) (\<lambda>b0.
       Inr (push_bit 24 (ucast b3) OR push_bit 16 (ucast b2) OR
            push_bit 8 (ucast b1) OR ucast b0)))))"

definition SetQWord :: "Program \<Rightarrow> int \<Rightarrow> 32 word \<Rightarrow> error + Program" where
  "SetQWord p idx v =
     bindE (SetByte p (idx - 3) (ucast (drop_bit 24 v))) (\<lambda>p1.
     bindE (SetByte p1 (idx - 2) (ucast (drop_bit 16 v))) (\<lambda>p2.
     bindE (SetByte p2 (idx - 1) (ucast (drop_bit 8 v))) (\<lambda>p3.
       SetByte p3 idx (ucast v))))"

subsection \<open>Loop jumps\<close>

text \<open>
  \<open>JumpToCloseLoop\<close> scans forward from \<open>pc\<close>; the function returns the final \<open>pc\<close>.
  Reading \<open>p.memory[p.pc]\<close> past the end of memory panics.
\<close>

function closeScan :: "byte list \<Rightarrow> int \<Rightarrow> int \<Rightarrow> error + int" where
  "closeScan mem i depth =
     (if i < 0 \<or> i \<ge> int (length mem) then Inl IndexOutOfRange
      else let instr = mem ! nat i in
        if instr = 0 then Inr i
        else if instr = chOpen then closeScan mem (i + 1) (depth + 1)
        else if instr = chClose then
          (if depth - 1 \<le> 0 then Inr i else closeScan mem (i + 1) (depth - 1))
        else closeScan mem (i + 1) depth)"
  by pat_completeness auto
termination
  by (relation "measure (\<lambda>(mem, i, depth). length mem - nat i)") auto

definition JumpToCloseLoop :: "Program \<Rightarrow> error + Program" where
  "JumpToCloseLoop p = bindE (closeScan (memory p) (pc p) 0) (\<lambda>i. Inr (p\<lparr>pc := i\<rparr>))"

text \<open>
  \<open>JumpToOpenLoop\<close> scans backward; stepping below index 0 sets \<open>pc\<close> to 0 and returns.
\<close>

function openScan :: "byte list \<Rightarrow> int \<Rightarrow> int \<Rightarrow> error + int" where
  "openScan mem i depth =
     (if i < 0 \<or> i \<ge> int (length mem) then Inl IndexOutOfRange
      else let instr = mem ! nat i in
        if instr = 0 then Inr i
        else if instr = chClose then
          (if i - 1 < 0 then Inr 0 else openScan mem (i - 1) (depth + 1))
        else if instr = chOpen then
          (if depth - 1 \<le> 0 then Inr i
           else if i - 1 < 0 then Inr 0 else openScan mem (i - 1) (depth - 1))
        else if i - 1 < 0 then Inr 0 else openScan mem (i - 1) depth)"
  by pat_completeness auto
termination
  by (relation "measure (\<lambda>(mem, i, depth). nat i)") auto

definition JumpToOpenLoop :: "Program \<Rightarrow> error + Program" where
  "JumpToOpenLoop p = bindE (openScan (memory p) (pc p) 0) (\<lambda>i. Inr (p\<lparr>pc := i\<rparr>))"

subsection \<open>Opcode dispatch\<close>

text \<open>
  \<open>Program.Op\<close>. The channel is modelled by the list of Ops sent on it: the result is
  the new state and the Ops this call sent.
\<close>

definition Program_Op :: "Program \<Rightarrow> Op \<Rightarrow> error + (Program \<times> Op list)" where
  "Program_Op p op =
     (let c = code op in
      if c = 0 then Inr (p, [])
      else if c = 1 then
        bindE (Op_Byte op 0) (\<lambda>b.
          let n = pc p + uint b
          in Inr (if n \<ge> int (length (memory p))
                  then p\<lparr>pc := int (length (memory p)) - 1\<rparr> else p\<lparr>pc := n\<rparr>, []))
      else if c = 2 then
        bindE (Op_Byte op 0) (\<lambda>b.
          let n = pc p - uint b
          in Inr (if n < 0 then p\<lparr>pc := 0\<rparr> else p\<lparr>pc := n\<rparr>, []))
      else if c = 20 then bindE (Op_Byte op 0) (\<lambda>b. Inr (p\<lparr>r8a := b\<rparr>, []))
      else if c = 21 then bindE (Op_Byte op 0) (\<lambda>b. Inr (p\<lparr>r8b := b\<rparr>, []))
      else if c = 22 then bindE (Op_Word op 0) (\<lambda>w. Inr (p\<lparr>r16a := w\<rparr>, []))
      else if c = 23 then bindE (Op_Word op 0) (\<lambda>w. Inr (p\<lparr>r16b := w\<rparr>, []))
      else if c = 24 then bindE (Op_QWord op 0) (\<lambda>q. Inr (p\<lparr>r32a := q\<rparr>, []))
      else if c = 25 then bindE (Op_QWord op 0) (\<lambda>q. Inr (p\<lparr>r32b := q\<rparr>, []))
      else if c = 26 then bindE (SetByte p (memPtr p - 1) (r8a p)) (\<lambda>p'. Inr (p', []))
      else if c = 27 then bindE (SetByte p (memPtr p - 1) (r8b p)) (\<lambda>p'. Inr (p', []))
      else if c = 28 then bindE (SetWord p (memPtr p - 1) (r16a p)) (\<lambda>p'. Inr (p', []))
      else if c = 29 then bindE (SetWord p (memPtr p - 1) (r16b p)) (\<lambda>p'. Inr (p', []))
      else if c = 30 then bindE (SetQWord p (memPtr p - 1) (r32a p)) (\<lambda>p'. Inr (p', []))
      else if c = 31 then bindE (SetQWord p (memPtr p - 1) (r32b p)) (\<lambda>p'. Inr (p', []))
      else Inr (p, [op]))"

subsection \<open>The execution loop\<close>

text \<open>Go's \<open>%\<close> truncates towards zero: the remainder has the sign of the dividend.\<close>

definition go_rem :: "int \<Rightarrow> int \<Rightarrow> int" where
  "go_rem a b = sgn a * (\<bar>a\<bar> mod \<bar>b\<bar>)"

definition AddRolling :: "int \<Rightarrow> int \<Rightarrow> int \<Rightarrow> int" where
  "AddRolling n amt mx = go_rem (n + amt) mx"

definition SubRolling :: "int \<Rightarrow> int \<Rightarrow> int \<Rightarrow> int" where
  "SubRolling n amt mx = go_rem (n - amt) mx"

text \<open>
  The fused-run loops \<open>for i = p.pc; p.memory[i] == c; i++ { body }\<close>. The loop bodies
  (\<open>p.Right()\<close>, \<open>p.Left()\<close>, \<open>amt++\<close>) do not store to memory, so the memory is a
  parameter and the body acts on the rest of the state. The result is the final \<open>i\<close> and
  that state; running off the end of memory panics.
\<close>

function fused :: "byte \<Rightarrow> ('s \<Rightarrow> 's) \<Rightarrow> byte list \<Rightarrow> int \<Rightarrow> 's \<Rightarrow> error + (int \<times> 's)" where
  "fused c body mem i s =
     (if i < 0 \<or> i \<ge> int (length mem) then Inl IndexOutOfRange
      else if mem ! nat i = c then fused c body mem (i + 1) (body s)
      else Inr (i, s))"
  by pat_completeness auto
termination
  by (relation "measure (\<lambda>(c, body, mem, i, s). length mem - nat i)") auto

text \<open>
  The Op built by the invoke instruction: the opcode is the current cell, and
  \<open>copy(op.args[:], p.memory[argsStart:p.memPtr])\<close> fills the front of the zeroed array.
\<close>

definition invokeOp :: "Program \<Rightarrow> error + Op" where
  "invokeOp p =
     bindE (Program_Byte p (memPtr p)) (\<lambda>c.
       let argsStart = (if memPtr p - 8 < 0 then 0 else memPtr p - 8);
           gathered = take (nat (memPtr p - argsStart)) (drop (nat argsStart) (memory p))
       in Inr \<lparr> code = c, args = gathered @ replicate (8 - length gathered) 0 \<rparr>)"

text \<open>
  One iteration of the loop of \<open>Run\<close> for a non-zero instruction byte at \<open>pc\<close>: the
  \<open>switch\<close>, then \<open>p.pc++\<close>. The result is the new state and the Ops sent.
\<close>

definition next_pc :: "Program \<Rightarrow> Program" where
  "next_pc p = p\<lparr>pc := pc p + 1\<rparr>"

definition step :: "Program \<Rightarrow> error + (Program \<times> Op list)" where
  "step p =
     bindE (Program_Byte p (pc p)) (\<lambda>instr.
       if instr = chRight then
         bindE (fused chRight Right (memory p) (pc p) p) (\<lambda>(i, p').
           Inr (next_pc (p'\<lparr>pc := i - 1\<rparr>), []))
       else if instr = chLeft then
         bindE (fused chLeft Left (memory p) (pc p) p) (\<lambda>(i, p').
           Inr (next_pc (p'\<lparr>pc := i - 1\<rparr>), []))
       else if instr = chPlus then
         bindE (fused chPlus (\<lambda>amt. amt + 1) (memory p) (pc p) (0::int)) (\<lambda>(i, amt).
         let p1 = p\<lparr>pc := i - 1\<rparr> in
         bindE (Program_Byte p1 (memPtr p1)) (\<lambda>b.
         bindE (SetByte p1 (memPtr p1) (word_of_int (AddRolling (uint b) amt 255))) (\<lambda>p2.
           Inr (next_pc p2, []))))
       else if instr = chMinus then
         bindE (fused chMinus (\<lambda>amt. amt + 1) (memory p) (pc p) (0::int)) (\<lambda>(i, amt).
         let p1 = p\<lparr>pc := i - 1\<rparr> in
         bindE (Program_Byte p1 (memPtr p1)) (\<lambda>b.
         bindE (SetByte p1 (memPtr p1) (word_of_int (SubRolling (uint b) amt 255))) (\<lambda>p2.
           Inr (next_pc p2, []))))
       else if instr = chOpen then
         (if pc p + 3 > int (length (memory p)) then Inl IndexOutOfRange
          else if take 3 (drop (nat (pc p)) (memory p)) = [chOpen, chMinus, chClose] then
            bindE (SetByte p (memPtr p) 0) (\<lambda>p1.
              Inr (next_pc (p1\<lparr>pc := pc p1 + 2\<rparr>), []))
          else
            bindE (Program_Byte p (memPtr p)) (\<lambda>b.
              if b = 0 then bindE (JumpToCloseLoop p) (\<lambda>p1. Inr (next_pc p1, []))
              else Inr (next_pc p, [])))
       else if instr = chClose then
         bindE (Program_Byte p (memPtr p)) (\<lambda>b.
           if b \<noteq> 0 then bindE (JumpToOpenLoop p) (\<lambda>p1. Inr (next_pc p1, []))
           else Inr (next_pc p, []))
       else if instr = chDot then
         bindE (invokeOp p) (\<lambda>op.
         bindE (Program_Op p op) (\<lambda>(p1, out).
           Inr (next_pc p1, out)))
       else Inr (next_pc p, []))"

text \<open>
  The loop of \<open>Run\<close>, with fuel: one unit per iteration, \<open>None\<close> when the fuel runs out
  before the machine halts. The result carries the Ops sent on the channel, in order.
\<close>

fun runLoop :: "nat \<Rightarrow> Program \<Rightarrow> Op list \<Rightarrow> (error + (Program \<times> Op list)) option" where
  "runLoop 0 p out = None"
| "runLoop (Suc n) p out =
     (case Program_Byte p (pc p) of
        Inl e \<Rightarrow> Some (Inl e)
      | Inr instr \<Rightarrow>
          if instr = 0 then Some (Inr (p, out))
          else (case step p of
                  Inl e \<Rightarrow> Some (Inl e)
                | Inr (p', sent) \<Rightarrow> runLoop n p' (out @ sent)))"

definition Run :: "nat \<Rightarrow> Program \<Rightarrow> (error + (Program \<times> Op list)) option" where
  "Run fuel p =
     (if length (memory p) = 0 then Some (Inl ErrProgramNoMemory) else runLoop fuel p [])"

text \<open>
  The same loop with every loop-open byte executed literally, that is without the
  special case for the clear idiom: the reference against which the special case
  is compared. Every other instruction is executed by \<open>step\<close>.
\<close>

definition stepLiteral :: "Program \<Rightarrow> error + (Program \<times> Op list)" where
  "stepLiteral p =
     (if Program_Byte p (pc p) = Inr chOpen then
        bindE (Program_Byte p (memPtr p)) (\<lambda>b.
          if b = 0 then bindE (JumpToCloseLoop p) (\<lambda>p1. Inr (next_pc p1, []))
          else Inr (next_pc p, []))
      else step p)"

fun runLoopLiteral :: "nat \<Rightarrow> Program \<Rightarrow> Op list \<Rightarrow> (error + (Program \<times> Op list)) option" where
  "runLoopLiteral 0 p out = None"
| "runLoopLiteral (Suc n) p out =
     (case Program_Byte p (pc p) of
        Inl e \<Rightarrow> Some (Inl e)
      | Inr instr \<Rightarrow>
          if instr = 0 then Some (Inr (p, out))
          else (case stepLiteral p of
                  Inl e \<Rightarrow> Some (Inl e)
                | Inr (p', sent) \<Rightarrow> runLoopLiteral n p' (out @ sent)))"

definition RunLiteral :: "nat \<Rightarrow> Program \<Rightarrow> (error + (Program \<times> Op list)) option" where
  "RunLiteral fuel p =
     (if length (memory p) = 0 then Some (Inl ErrProgramNoMemory)
      else runLoopLiteral fuel p [])"

text \<open>The three bytes of the clear idiom \<open>[-]\<close> lie at index \<open>i\<close> of the memory.\<close>

definition idiomAt :: "byte list \<Rightarrow> int \<Rightarrow> bool" where
  "idiomAt mem i \<longleftrightarrow>
     0 \<le> i \<and> i + 2 < int (length mem) \<and> mem ! nat i = chOpen \<and>
     mem ! nat (i + 1) = chMinus \<and> mem ! nat (i + 2) = chClose"

section \<open>The code generator\<close>

subsection \<open>Syntax tree\<close>

text \<open>The \<open>expr\<close> interface with its three implementations; a nil interface value is
  \<open>None\<close>.\<close>

datatype expr = ExprInt int | ExprId string | ExprAddr expr

record stmtInstr =
  name :: string
  dst :: "expr option"
  src :: "expr option"

datatype stmt = StmtInstr stmtInstr | StmtLabel string

text \<open>
  The method \<open>int(lookup)\<close>. An identifier is looked up and the expression found is
  evaluated in turn, which does not return when a constant is bound to itself, hence
  the option: \<open>None\<close> is "does not return". \<open>exprAddr.int\<close> panics.
\<close>

partial_function (option) expr_int :: "(string \<Rightarrow> expr option) \<Rightarrow> expr \<Rightarrow> (error + int) option" where
  "expr_int lookup e =
     (case e of
        ExprInt v \<Rightarrow> Some (Inr v)
      | ExprId x \<Rightarrow>
          (case lookup x of
             None \<Rightarrow> Some (Inl (ErrVarNotDefined x))
           | Some e' \<Rightarrow> expr_int lookup e')
      | ExprAddr _ \<Rightarrow> Some (Inl (Panic ''cannot call int() on exprAddr; not an int itself'')))"

declare expr_int.simps [code]

subsection \<open>Generator state\<close>

record gen =
  sb :: string
  ptr :: int
  label :: string
  labelTable :: "string \<Rightarrow> expr option"
  loopStarts :: "int list"

text \<open>Sequencing of generator actions that may fail or not return.\<close>

definition bindG :: "(error + 'a) option \<Rightarrow> ('a \<Rightarrow> (error + 'b) option) \<Rightarrow> (error + 'b) option" where
  "bindG m f = (case m of None \<Rightarrow> None | Some (Inl e) \<Rightarrow> Some (Inl e) | Some (Inr x) \<Rightarrow> f x)"

text \<open>\<open>g.sb.WriteRune\<close> and \<open>g.sb.WriteString\<close>.\<close>

definition writeString :: "gen \<Rightarrow> string \<Rightarrow> gen" where
  "writeString g s = g\<lparr>sb := sb g @ s\<rparr>"

definition point :: "gen \<Rightarrow> int \<Rightarrow> gen" where
  "point g target =
     (let diff = target - ptr g;
          g1 = (if diff < 0 then writeString g (replicate (nat (- diff)) CHR ''<'')
                else writeString g (replicate (nat diff) CHR ''>''))
      in g1\<lparr>ptr := target\<rparr>)"

definition pushLoopStart :: "gen \<Rightarrow> int \<Rightarrow> gen" where
  "pushLoopStart g v = g\<lparr>loopStarts := loopStarts g @ [v]\<rparr>"

text \<open>\<open>g.loopStarts[len(g.loopStarts)-1]\<close> panics on the empty stack.\<close>

definition popLoopStart :: "gen \<Rightarrow> error + (int \<times> gen)" where
  "popLoopStart g =
     (if loopStarts g = [] then Inl IndexOutOfRange
      else Inr (last (loopStarts g), g\<lparr>loopStarts := butlast (loopStarts g)\<rparr>))"

definition loopStart :: "gen \<Rightarrow> gen" where
  "loopStart g = writeString (pushLoopStart g (ptr g)) ''[''"

definition loopEnd :: "gen \<Rightarrow> error + gen" where
  "loopEnd g = bindE (popLoopStart g) (\<lambda>(start, g1). Inr (writeString (point g1 start) '']''))"

definition lookup :: "gen \<Rightarrow> string \<Rightarrow> expr option" where
  "lookup g x = labelTable g x"

subsection \<open>Instructions\<close>

text \<open>
  The operand pattern every addressed instruction repeats:
  \<open>if addr, ok := operand.(exprAddr); ok { v, err := addr.expr.int(g.lookup); if err != nil
  { panic(err) } ... } else { panic(msg) }\<close>. The result is \<open>v\<close>.
\<close>

definition addrOperand :: "gen \<Rightarrow> expr option \<Rightarrow> string \<Rightarrow> (error + int) option" where
  "addrOperand g operand msg =
     (case operand of
        Some (ExprAddr e) \<Rightarrow> expr_int (lookup g) e
      | _ \<Rightarrow> Some (Inl (Panic msg)))"

text \<open>The count of \<open>inc\<close> and \<open>dec\<close>: 1 unless the second operand is given.\<close>

definition timesOperand :: "gen \<Rightarrow> expr option \<Rightarrow> (error + int) option" where
  "timesOperand g operand =
     (case operand of
        None \<Rightarrow> Some (Inr 1)
      | Some e \<Rightarrow>
          (case expr_int (lookup g) e of
             None \<Rightarrow> None
           | Some (Inl (ErrVarNotDefined x)) \<Rightarrow>
               Some (Inl (Panic ''second argument must be an integer''))
           | Some (Inl err) \<Rightarrow> Some (Inl err)
           | Some (Inr v) \<Rightarrow> Some (Inr v)))"

definition ok :: "'a \<Rightarrow> (error + 'a) option" where
  "ok x = Some (Inr x)"

definition instr :: "gen \<Rightarrow> stmtInstr \<Rightarrow> (error + gen) option" where
  "instr g i =
     bindG
      (if name i = ''inc'' then
         bindG (addrOperand g (dst i) ''first argument must be an address'') (\<lambda>v.
         let g1 = point g v in
         bindG (timesOperand g1 (src i)) (\<lambda>times.
           ok (writeString g1 (replicate (nat times) CHR ''+''))))
       else if name i = ''dec'' then
         bindG (addrOperand g (dst i) ''first argument must be an address'') (\<lambda>v.
         let g1 = point g v in
         bindG (timesOperand g1 (src i)) (\<lambda>times.
           ok (writeString g1 (replicate (nat times) CHR ''-''))))
       else if name i = ''while'' then
         bindG (addrOperand g (dst i) ''first argument must be an address'') (\<lambda>v.
           ok (loopStart (point g v)))
       else if name i = ''endwhile'' then
         (case dst i of
            Some (ExprAddr e) \<Rightarrow>
              bindG (expr_int (lookup g) e) (\<lambda>v.
              bindG (Some (popLoopStart g)) (\<lambda>(start, g1).
                ok (writeString (point g1 v) '']'')))
          | _ \<Rightarrow> Some (loopEnd g))
       else if name i = ''call'' then
         bindG (addrOperand g (dst i) ''first argument must be an address'') (\<lambda>v.
           ok (writeString (point g v) ''.''))
       else if name i = ''read'' then
         bindG (addrOperand g (dst i) ''first argument must be an address'') (\<lambda>v.
           ok (writeString (point g v) '',''))
       else if name i = ''clear'' then
         bindG (addrOperand g (dst i) ''first argument must be an address'') (\<lambda>v.
           ok (writeString (point g v) ''[-]''))
       else if name i = ''if'' then
         bindG (addrOperand g (dst i) ''first argument must be the address of the conditional cell'') (\<lambda>condPtr.
         bindG (addrOperand g (src i) ''second argument must be the address of a cell that can be junked'') (\<lambda>junkPtr.
           let g1 = writeString (point g junkPtr) ''[-]+'';
               g2 = point g1 condPtr;
               g3 = pushLoopStart (pushLoopStart g2 condPtr) junkPtr;
               g4 = writeString g3 ''['';
               g5 = writeString g4 ''[-]'';
               g6 = point g5 junkPtr
           in ok (writeString g6 ''[-]'')))
       else if name i = ''else'' then
         bindG (Some (popLoopStart g)) (\<lambda>(junkPtr, g1).
         bindG (Some (popLoopStart g1)) (\<lambda>(condPtr, g2).
           let g3 = writeString (point g2 condPtr) '']'';
               g4 = writeString (point g3 junkPtr) ''[''
           in ok (pushLoopStart (pushLoopStart g4 condPtr) junkPtr)))
       else if name i = ''endif'' then
         bindG (Some (popLoopStart g)) (\<lambda>(junkPtr, g1).
         bindG (Some (popLoopStart g1)) (\<lambda>(condPtr, g2).
           ok (writeString (point g2 condPtr) '']'')))
       else if name i = ''const'' then
         (case dst i of
            None \<Rightarrow> Some (Inl (Panic ''const must have one value''))
          | Some v \<Rightarrow>
              if src i \<noteq> None then Some (Inl (Panic ''const must have one value''))
              else if label g = [] then Some (Inl (Panic ''const must have a label before it''))
              else if labelTable g (label g) \<noteq> None then
                Some (Inl (Panic ''a const cannot be shadowed by another const with the same name''))
              else ok (g\<lparr>labelTable := (labelTable g)(label g \<mapsto> v)\<rparr>))
       else Some (Inl (Panic (''not a valid instruction name: '' @ name i))))
      (\<lambda>g'. ok (g'\<lparr>label := []\<rparr>))"

subsection \<open>Generating a program\<close>

definition newGen :: gen where
  "newGen = \<lparr> sb = [], ptr = 0, label = [], labelTable = Map.empty, loopStarts = [] \<rparr>"

fun genStmts :: "gen \<Rightarrow> stmt list \<Rightarrow> (error + gen) option" where
  "genStmts g [] = ok g"
| "genStmts g (s # ss) =
     bindG (case s of StmtInstr i \<Rightarrow> instr g i | StmtLabel l \<Rightarrow> ok (g\<lparr>label := l\<rparr>))
       (\<lambda>g'. genStmts g' ss)"

definition generate :: "stmt list \<Rightarrow> (error + string) option" where
  "generate stmts = bindG (genStmts newGen stmts) (\<lambda>g. ok (sb g))"

subsection \<open>Matched control constructs\<close>

text \<open>
  The constructs a statement list leaves open, innermost first: a \<open>while\<close> is closed
  by \<open>endwhile\<close>; an \<open>if\<close> is turned into its else-arm by \<open>else\<close> and closed, in
  either arm, by \<open>endif\<close>. \<open>nest\<close> is \<open>None\<close> when a closing statement does not meet
  its own kind of open construct. A statement list is matched when it opens and closes
  constructs in this discipline and leaves none open.
\<close>

datatype construct = InWhile | InIf | InElse

fun nest :: "construct list \<Rightarrow> stmt list \<Rightarrow> construct list option" where
  "nest ks [] = Some ks"
| "nest ks (StmtLabel l # ss) = nest ks ss"
| "nest ks (StmtInstr i # ss) =
     (if name i = ''while'' then nest (InWhile # ks) ss
      else if name i = ''endwhile'' then
        (case ks of InWhile # ks' \<Rightarrow> nest ks' ss | _ \<Rightarrow> None)
      else if name i = ''if'' then nest (InIf # ks) ss
      else if name i = ''else'' then
        (case ks of InIf # ks' \<Rightarrow> nest (InElse # ks') ss | _ \<Rightarrow> None)
      else if name i = ''endif'' then
        (case ks of InIf # ks' \<Rightarrow> nest ks' ss | InElse # ks' \<Rightarrow> nest ks' ss | _ \<Rightarrow> None)
      else nest ks ss)"

definition matched :: "stmt list \<Rightarrow> bool" where
  "matched ss \<longleftrightarrow> nest [] ss = Some []"

text \<open>The loop-stack entries an open construct holds: one for a loop, two for a
  conditional.\<close>

fun entries :: "construct \<Rightarrow> nat" where
  "entries InWhile = 1"
| "entries InIf = 2"
| "entries InElse = 2"

section \<open>Properties of the virtual machine\<close>

subsection \<open>Basic facts\<close>

lemma bindE_simps [simp]: "bindE (Inl e) f = Inl e" "bindE (Inr x) f = f x"
  by (simp_all add: bindE_def)

lemma Op_Byte_args:
  "length (args op) = 8 \<Longrightarrow> 0 \<le> i \<Longrightarrow> i < 8 \<Longrightarrow> Op_Byte op i = Inr (args op ! nat (7 - i))"
  by (simp add: Op_Byte_def)

subsection \<open>Decoding the arguments of an Op\<close>

text \<open>
  Claim C10: \<open>Op.Word(i)\<close> and \<open>Op.QWord(i)\<close> ignore their index: for every Op (with
  its eight argument bytes) and every \<open>i\<close>, \<open>Word(i)\<close> is \<open>Word(0)\<close> and decodes
  argument bytes 1 and 0, high byte first, and \<open>QWord(i)\<close> is \<open>QWord(0)\<close> and decodes
  argument bytes 3, 2, 1, 0. Argument byte \<open>k\<close> is \<open>args[7 - k]\<close>.
\<close>

theorem Op_Word_QWord_ignore_index:
  "length (args op) = 8 \<Longrightarrow>
     Op_Word op i = Op_Word op 0 \<and>
     Op_Word op i = Inr (push_bit 8 (ucast (args op ! 6)) OR ucast (args op ! 7)) \<and>
     Op_QWord op i = Op_QWord op 0 \<and>
     Op_QWord op i =
       Inr (push_bit 24 (ucast (args op ! 4)) OR push_bit 16 (ucast (args op ! 5)) OR
            push_bit 8 (ucast (args op ! 6)) OR ucast (args op ! 7))"
  by (simp add: Op_Word_def Op_QWord_def Op_Byte_args)

theorem Op_Word_QWord_ignore_index_witness:
  "length (args \<lparr>code = 22, args = [0, 0, 0, 0, 9, 8, 1, 4]\<rparr>) = 8 \<and>
   Op_Word \<lparr>code = 22, args = [0, 0, 0, 0, 9, 8, 1, 4]\<rparr> 5 = Inr 260 \<and>
   Op_QWord \<lparr>code = 22, args = [0, 0, 0, 0, 9, 8, 1, 4]\<rparr> 5 = Inr 151519492"
proof -
  let ?op = "\<lparr>code = 22, args = [0, 0, 0, 0, 9, 8, 1, 4]\<rparr>"
  have h: "length (args ?op) = 8" by simp
  from Op_Word_QWord_ignore_index [OF h, of 5]
  have w: "Op_Word ?op 5 = Inr (push_bit 8 (ucast (args ?op ! 6)) OR ucast (args ?op ! 7))"
    and q: "Op_QWord ?op 5 =
       Inr (push_bit 24 (ucast (args ?op ! 4)) OR push_bit 16 (ucast (args ?op ! 5)) OR
            push_bit 8 (ucast (args ?op ! 6)) OR ucast (args ?op ! 7))"
    by blast+
  show ?thesis unfolding w q by simp
qed

subsection \<open>Loading: the bracket check\<close>

lemma bracketDepth_count:
  "bracketDepth cs d = d + int (count_list cs chOpen) - int (count_list cs chClose)"
  by (induction cs arbitrary: d) auto

text \<open>
  Claim C6: \<open>NewProgram\<close> returns \<open>ErrCodeBracketImbalance\<close> exactly when the raw input
  has different numbers of loop-open and loop-close bytes, and returns a program
  exactly when the numbers are equal; so an input that balances in count but not in
  nesting, such as \<open>][\<close>, is loaded without error.
\<close>

theorem NewProgram_bracket_count:
  "(NewProgram input = Inl ErrCodeBracketImbalance \<longleftrightarrow>
      count_list input chOpen \<noteq> count_list input chClose) \<and>
   ((\<exists>p. NewProgram input = Inr p) \<longleftrightarrow>
      count_list input chOpen = count_list input chClose) \<and>
   (\<exists>p. NewProgram (bytes '']['') = Inr p)"
  by (auto simp add: NewProgram_def ValidateBrainfuck_def bracketDepth_count bytes_def Let_def)

theorem NewProgram_bracket_count_witness:
  "NewProgram (bytes ''[[]'') = Inl ErrCodeBracketImbalance"
  using NewProgram_bracket_count [of "bytes ''[[]''"] by (simp add: bytes_def)

subsection \<open>The tape pointer and fused runs\<close>

declare fused.simps [simp del] closeScan.simps [simp del] openScan.simps [simp del]

lemma Right_fields [simp]:
  "memory (Right p) = memory p" "pc (Right p) = pc p" "dataStart (Right p) = dataStart p"
  by (simp_all add: Right_def Let_def)

lemma Left_fields [simp]:
  "memory (Left p) = memory p" "pc (Left p) = pc p" "dataStart (Left p) = dataStart p"
  by (simp_all add: Left_def Let_def)

lemma memPtr_Right:
  assumes "inBounds p (memPtr p)"
  shows "memPtr (Right p) = (memPtr p + 1) mod int (length (memory p))"
proof (cases "memPtr p + 1 \<ge> int (length (memory p))")
  case True
  with assms have "memPtr p + 1 = int (length (memory p))" by (simp add: inBounds_def)
  then show ?thesis using True by (simp add: Right_def Let_def)
next
  case False
  with assms show ?thesis by (simp add: Right_def Let_def inBounds_def)
qed

lemma memPtr_Left:
  assumes "inBounds p (memPtr p)"
  shows "memPtr (Left p) = (memPtr p - 1) mod int (length (memory p))"
proof (cases "memPtr p - 1 < 0")
  case True
  with assms have z: "memPtr p = 0" and pos: "0 < int (length (memory p))"
    unfolding inBounds_def by linarith+
  have "(- 1) mod int (length (memory p)) = int (length (memory p)) - 1"
    using pos by (simp add: zmod_minus1)
  then show ?thesis using z by (simp add: Left_def Let_def)
next
  case False
  with assms show ?thesis by (simp add: Left_def Let_def inBounds_def)
qed

lemma inBounds_Right: "inBounds p (memPtr p) \<Longrightarrow> inBounds (Right p) (memPtr (Right p))"
  by (auto simp add: Right_def inBounds_def Let_def)

lemma inBounds_Left: "inBounds p (memPtr p) \<Longrightarrow> inBounds (Left p) (memPtr (Left p))"
  by (auto simp add: Left_def inBounds_def Let_def)

lemma inBounds_moves:
  "inBounds p (memPtr p) \<Longrightarrow> \<forall>f\<in>set fs. f = Right \<or> f = Left \<Longrightarrow>
     inBounds (fold (\<lambda>f q. f q) fs p) (memPtr (fold (\<lambda>f q. f q) fs p))"
proof (induction fs arbitrary: p)
  case Nil
  then show ?case by simp
next
  case (Cons f fs)
  from Cons.prems have "inBounds (f p) (memPtr (f p))"
    by (auto intro: inBounds_Right inBounds_Left)
  with Cons show ?case by simp
qed

lemma fused_run:
  "0 \<le> i \<Longrightarrow> i + int k < int (length mem) \<Longrightarrow> \<forall>j<k. mem ! nat (i + int j) = c \<Longrightarrow>
   mem ! nat (i + int k) \<noteq> c \<Longrightarrow> fused c body mem i s = Inr (i + int k, (body ^^ k) s)"
proof (induction k arbitrary: i s)
  case 0
  then show ?case by (subst fused.simps) simp
next
  case (Suc k)
  from Suc.prems(3) have "mem ! nat (i + int 0) = c" by blast
  then have here: "mem ! nat i = c" by simp
  have rest: "\<forall>j<k. mem ! nat (i + 1 + int j) = c"
  proof (intro allI impI)
    fix j assume "j < k"
    then have "mem ! nat (i + int (Suc j)) = c" using Suc.prems(3) by blast
    then show "mem ! nat (i + 1 + int j) = c" by (simp add: add.assoc)
  qed
  have "fused c body mem (i + 1) (body s) = Inr (i + 1 + int k, (body ^^ k) (body s))"
    using Suc.prems by (intro Suc.IH rest) (simp_all add: add.assoc)
  then show ?case using Suc.prems here
    by (subst fused.simps) (simp add: funpow_swap1 add.assoc)
qed

lemma funpow_count: "((\<lambda>amt. amt + 1) ^^ k) (a::int) = a + int k"
  by (induction k arbitrary: a) (simp_all add: funpow_swap1)

lemma go_rem_nonneg: "0 \<le> a \<Longrightarrow> 0 < b \<Longrightarrow> go_rem a b = a mod b"
  by (cases "a = 0") (simp_all add: go_rem_def)

lemma memory_moves:
  "\<forall>f\<in>set fs. f = Right \<or> f = Left \<Longrightarrow> memory (fold (\<lambda>f q. f q) fs p) = memory p"
  by (induction fs arbitrary: p) auto

text \<open>
  Claim C2, as amended: each step-right and step-left update wraps the tape pointer
  modulo the size of the whole memory (code segment, padding and data segment
  together), not modulo the size of the data segment: from a pointer inside the
  memory, \<open>Right\<close> gives \<open>(memPtr + 1) mod len(memory)\<close> and \<open>Left\<close> gives
  \<open>(memPtr - 1) mod len(memory)\<close>, and after any sequence of \<open>Right\<close> and \<open>Left\<close> the
  pointer is within \<open>[0, len(memory))\<close>, the memory being unchanged.
\<close>

theorem Right_Left_wrap_memory:
  "inBounds p (memPtr p) \<Longrightarrow>
     memPtr (Right p) = (memPtr p + 1) mod int (length (memory p)) \<and>
     memPtr (Left p) = (memPtr p - 1) mod int (length (memory p)) \<and>
     ((\<forall>f\<in>set fs. f = Right \<or> f = Left) \<longrightarrow>
        0 \<le> memPtr (fold (\<lambda>f q. f q) fs p) \<and>
        memPtr (fold (\<lambda>f q. f q) fs p) < int (length (memory p)) \<and>
        memory (fold (\<lambda>f q. f q) fs p) = memory p)"
proof (intro conjI impI)
  assume b: "inBounds p (memPtr p)"
  show "memPtr (Right p) = (memPtr p + 1) mod int (length (memory p))"
    using b by (rule memPtr_Right)
  show "memPtr (Left p) = (memPtr p - 1) mod int (length (memory p))"
    using b by (rule memPtr_Left)
  assume fs: "\<forall>f\<in>set fs. f = Right \<or> f = Left"
  from inBounds_moves [OF b fs] memory_moves [OF fs, of p]
  show "0 \<le> memPtr (fold (\<lambda>f q. f q) fs p)"
    and "memPtr (fold (\<lambda>f q. f q) fs p) < int (length (memory p))"
    by (simp_all add: inBounds_def)
  show "memory (fold (\<lambda>f q. f q) fs p) = memory p" by (rule memory_moves [OF fs])
qed

theorem Right_Left_wrap_memory_witness:
  "memPtr (Left \<lparr>memory = [chLeft, 0, 0], dataStart = 2, pc = 0, r8a = 0, r8b = 0,
      r16a = 0, r16b = 0, r32a = 0, r32b = 0, memPtr = 0\<rparr>) = 2 \<and>
   memPtr (Right \<lparr>memory = [chLeft, 0, 0], dataStart = 2, pc = 0, r8a = 0, r8b = 0,
      r16a = 0, r16b = 0, r32a = 0, r32b = 0, memPtr = 0\<rparr>) = 1"
  using Right_Left_wrap_memory [of "\<lparr>memory = [chLeft, 0, 0], dataStart = 2, pc = 0, r8a = 0,
      r8b = 0, r16a = 0, r16b = 0, r32a = 0, r32b = 0, memPtr = 0\<rparr>" "[Right, Left]"]
  by (simp add: inBounds_def)

text \<open>
  The pointer does leave the data segment: the program \<open><\<close> is loaded with the data
  segment starting at index 11, and its one step moves the pointer to index 10, in the
  padding of the code segment.
\<close>

theorem Left_leaves_data_segment:
  "NewProgram (bytes ''<'') =
     Inr \<lparr>memory = chLeft # replicate 30010 0, dataStart = 11, pc = 0, r8a = 0, r8b = 0,
          r16a = 0, r16b = 0, r32a = 0, r32b = 0, memPtr = 11\<rparr> \<and>
   step \<lparr>memory = chLeft # replicate 30010 0, dataStart = 11, pc = 0, r8a = 0, r8b = 0,
          r16a = 0, r16b = 0, r32a = 0, r32b = 0, memPtr = 11\<rparr> =
     Inr (\<lparr>memory = chLeft # replicate 30010 0, dataStart = 11, pc = 1, r8a = 0, r8b = 0,
          r16a = 0, r16b = 0, r32a = 0, r32b = 0, memPtr = 10\<rparr>, []) \<and>
   memPtr (Left \<lparr>memory = chLeft # replicate 30010 0, dataStart = 11, pc = 0, r8a = 0, r8b = 0,
          r16a = 0, r16b = 0, r32a = 0, r32b = 0, memPtr = 11\<rparr>) <
   dataStart (Left \<lparr>memory = chLeft # replicate 30010 0, dataStart = 11, pc = 0, r8a = 0,
          r8b = 0, r16a = 0, r16b = 0, r32a = 0, r32b = 0, memPtr = 11\<rparr>)"
  by (simp add: NewProgram_def ValidateBrainfuck_def bytes_def isInstr_def
      step_def Program_Byte_def inBounds_def fused.simps Left_def next_pc_def)

subsection \<open>Fused increments and decrements\<close>

lemma step_plus_run:
  assumes "0 \<le> pc p" "pc p + int k < int (length (memory p))" "0 < k"
    "\<forall>j<k. memory p ! nat (pc p + int j) = chPlus"
    "memory p ! nat (pc p + int k) \<noteq> chPlus" "inBounds p (memPtr p)"
  shows "step p = Inr (p\<lparr>pc := pc p + int k,
            memory := (memory p)[nat (memPtr p) :=
              word_of_int ((uint (memory p ! nat (memPtr p)) + int k) mod 255)]\<rparr>, [])"
proof -
  from assms(3,4) have "memory p ! nat (pc p + int 0) = chPlus" by blast
  then have here: "memory p ! nat (pc p) = chPlus" by simp
  have ib: "inBounds p (pc p)" using assms(1,2) by (simp add: inBounds_def)
  have f: "fused chPlus (\<lambda>amt. amt + 1) (memory p) (pc p) (0::int) = Inr (pc p + int k, int k)"
    using fused_run [OF assms(1,2,4,5), of "\<lambda>amt. amt + 1" "0::int"] by (simp add: funpow_count)
  have r: "AddRolling (uint (memory p ! nat (memPtr p))) (int k) 255 =
      (uint (memory p ! nat (memPtr p)) + int k) mod 255"
    by (simp add: AddRolling_def go_rem_nonneg)
  show ?thesis using here ib assms(6)
    by (simp add: step_def Program_Byte_def f r SetByte_def inBounds_def next_pc_def)
qed

lemma step_minus_run:
  assumes "0 \<le> pc p" "pc p + int k < int (length (memory p))" "0 < k"
    "\<forall>j<k. memory p ! nat (pc p + int j) = chMinus"
    "memory p ! nat (pc p + int k) \<noteq> chMinus" "inBounds p (memPtr p)"
  shows "step p = Inr (p\<lparr>pc := pc p + int k,
            memory := (memory p)[nat (memPtr p) :=
              word_of_int (go_rem (uint (memory p ! nat (memPtr p)) - int k) 255)]\<rparr>, [])"
proof -
  from assms(3,4) have "memory p ! nat (pc p + int 0) = chMinus" by blast
  then have here: "memory p ! nat (pc p) = chMinus" by simp
  have ib: "inBounds p (pc p)" using assms(1,2) by (simp add: inBounds_def)
  have f: "fused chMinus (\<lambda>amt. amt + 1) (memory p) (pc p) (0::int) = Inr (pc p + int k, int k)"
    using fused_run [OF assms(1,2,4,5), of "\<lambda>amt. amt + 1" "0::int"] by (simp add: funpow_count)
  show ?thesis using here ib assms(6)
    by (simp add: step_def Program_Byte_def f SubRolling_def SetByte_def inBounds_def next_pc_def)
qed

lemma fuel2: "(2::nat) = Suc (Suc 0)" by simp
lemma fuel5: "(5::nat) = Suc (Suc (Suc (Suc (Suc 0))))" by simp

lemmas vm_eval = step_def Program_Byte_def inBounds_def fused.simps AddRolling_def SubRolling_def
  go_rem_def SetByte_def next_pc_def Right_def Left_def

text \<open>The two executions of the test table that use only increments and pointer moves.\<close>

lemma run_inc5:
  "\<exists>p0 q. NewProgram (bytes ''+++++'') = Inr p0 \<and> Run 2 p0 = Some (Inr (q, [])) \<and>
     take 1 (DataSection q) = [5]"
proof -
  let ?p0 = "\<lparr>memory = [chPlus, chPlus, chPlus, chPlus, chPlus] @ replicate 30010 0,
          dataStart = 15, pc = 0, r8a = 0, r8b = 0, r16a = 0, r16b = 0, r32a = 0, r32b = 0,
          memPtr = 15\<rparr>"
  let ?q = "\<lparr>memory = [chPlus, chPlus, chPlus, chPlus, chPlus] @ (replicate 30010 0)[10 := 5],
          dataStart = 15, pc = 5, r8a = 0, r8b = 0, r16a = 0, r16b = 0, r32a = 0, r32b = 0,
          memPtr = 15\<rparr>"
  have load: "NewProgram (bytes ''+++++'') = Inr ?p0"
    by (simp add: NewProgram_def ValidateBrainfuck_def bytes_def isInstr_def)
  have "runLoop (Suc (Suc 0)) ?p0 [] = Some (Inr (?q, []))"
    by (simp add: vm_eval)
  then have run: "Run 2 ?p0 = Some (Inr (?q, []))"
    by (simp add: Run_def fuel2)
  have data: "take 1 (DataSection ?q) = [5]"
    by (simp add: DataSection_def drop_update_swap take_update_swap)
  from load run data show ?thesis by blast
qed

lemma run_wrap:
  "\<exists>p0 q. NewProgram (bytes ''>>>>+<-'') = Inr p0 \<and> Run 5 p0 = Some (Inr (q, [])) \<and>
     take 5 (DataSection q) = [0, 0, 0, 255, 1]"
proof -
  let ?code = "[chRight, chRight, chRight, chRight, chPlus, chLeft, chMinus]"
  let ?p0 = "\<lparr>memory = ?code @ replicate 30010 0,
          dataStart = 17, pc = 0, r8a = 0, r8b = 0, r16a = 0, r16b = 0, r32a = 0, r32b = 0,
          memPtr = 17\<rparr>"
  have m1: "(- 1 :: byte) = 255" by simp
  let ?q = "\<lparr>memory = ?code @ (replicate 30010 0)[14 := 1, 13 := 255],
          dataStart = 17, pc = 7, r8a = 0, r8b = 0, r16a = 0, r16b = 0, r32a = 0, r32b = 0,
          memPtr = 20\<rparr>"
  have load: "NewProgram (bytes ''>>>>+<-'') = Inr ?p0"
    by (simp add: NewProgram_def ValidateBrainfuck_def bytes_def isInstr_def)
  have "runLoop (Suc (Suc (Suc (Suc (Suc 0))))) ?p0 [] = Some (Inr (?q, []))"
    by (simp add: vm_eval m1)
  then have run: "Run 5 ?p0 = Some (Inr (?q, []))"
    by (simp add: Run_def fuel5)
  have "take 5 (drop 10 ((replicate 30010 (0::byte))[14 := 1, 13 := 255])) =
      (replicate 5 0)[4 := 1, 3 := 255]"
    by (simp add: drop_update_swap take_update_swap)
  also have "\<dots> = [0, 0, 0, 255, 1]"
    by (simp add: numeral_eq_Suc)
  finally have data: "take 5 (DataSection ?q) = [0, 0, 0, 255, 1]"
    by (simp add: DataSection_def)
  from load run data show ?thesis by blast
qed

text \<open>
  Claim C1: a fused run of \<open>k\<close> increment bytes at \<open>pc\<close> sets the current cell to
  \<open>(old + k) mod 255\<close>, and a fused run of \<open>k\<close> decrement bytes sets it to the byte
  truncation of Go's remainder \<open>(old - k) % 255\<close>; the program counter moves past the run
  and nothing is sent. Executing \<open>>>>>+<-\<close> on a freshly loaded program halts with the
  first five data cells \<open>0, 0, 0, 255, 1\<close>, and executing \<open>+++++\<close> halts with the
  first data cell 5.
\<close>

theorem fused_inc_dec_mod_255:
  "(0 \<le> pc p \<and> pc p + int k < int (length (memory p)) \<and> 0 < k \<and>
    (\<forall>j<k. memory p ! nat (pc p + int j) = c) \<and> memory p ! nat (pc p + int k) \<noteq> c \<and>
    inBounds p (memPtr p) \<longrightarrow>
      (c = chPlus \<longrightarrow>
         step p = Inr (p\<lparr>pc := pc p + int k,
            memory := (memory p)[nat (memPtr p) :=
              word_of_int ((uint (memory p ! nat (memPtr p)) + int k) mod 255)]\<rparr>, [])) \<and>
      (c = chMinus \<longrightarrow>
         step p = Inr (p\<lparr>pc := pc p + int k,
            memory := (memory p)[nat (memPtr p) :=
              word_of_int (go_rem (uint (memory p ! nat (memPtr p)) - int k) 255)]\<rparr>, []))) \<and>
   (\<exists>p0 q. NewProgram (bytes ''>>>>+<-'') = Inr p0 \<and> Run 5 p0 = Some (Inr (q, [])) \<and>
      take 5 (DataSection q) = [0, 0, 0, 255, 1]) \<and>
   (\<exists>p0 q. NewProgram (bytes ''+++++'') = Inr p0 \<and> Run 2 p0 = Some (Inr (q, [])) \<and>
      take 1 (DataSection q) = [5])"
  using step_plus_run [of p k] step_minus_run [of p k] run_wrap run_inc5 by blast

theorem fused_inc_dec_mod_255_witness:
  "step \<lparr>memory = [chPlus, chPlus, chPlus, 0, 254], dataStart = 4, pc = 0, r8a = 0, r8b = 0,
      r16a = 0, r16b = 0, r32a = 0, r32b = 0, memPtr = 4\<rparr> =
     Inr (\<lparr>memory = [chPlus, chPlus, chPlus, 0, 2], dataStart = 4, pc = 3, r8a = 0, r8b = 0,
      r16a = 0, r16b = 0, r32a = 0, r32b = 0, memPtr = 4\<rparr>, []) \<and>
   step \<lparr>memory = [chMinus, chMinus, 0, 1], dataStart = 3, pc = 0, r8a = 0, r8b = 0,
      r16a = 0, r16b = 0, r32a = 0, r32b = 0, memPtr = 3\<rparr> =
     Inr (\<lparr>memory = [chMinus, chMinus, 0, 255], dataStart = 3, pc = 2, r8a = 0, r8b = 0,
      r16a = 0, r16b = 0, r32a = 0, r32b = 0, memPtr = 3\<rparr>, [])"
proof -
  let ?a = "\<lparr>memory = [chPlus, chPlus, chPlus, 0, 254], dataStart = 4, pc = 0, r8a = 0, r8b = 0,
      r16a = 0, r16b = 0, r32a = 0, r32b = 0, memPtr = 4\<rparr>"
  let ?b = "\<lparr>memory = [chMinus, chMinus, 0, 1], dataStart = 3, pc = 0, r8a = 0, r8b = 0,
      r16a = 0, r16b = 0, r32a = 0, r32b = 0, memPtr = 3\<rparr>"
  have run3: "\<forall>j<3. memory ?a ! nat (pc ?a + int j) = chPlus"
    by (simp add: less_Suc_eq numeral_3_eq_3)
  have run2: "\<forall>j<2. memory ?b ! nat (pc ?b + int j) = chMinus"
    by (simp add: less_Suc_eq numeral_2_eq_2)
  have "step ?a = Inr (?a\<lparr>pc := pc ?a + int 3,
            memory := (memory ?a)[nat (memPtr ?a) :=
              word_of_int ((uint (memory ?a ! nat (memPtr ?a)) + int 3) mod 255)]\<rparr>, [])"
    using fused_inc_dec_mod_255 [of ?a 3 chPlus] run3 by (simp add: inBounds_def)
  moreover have "step ?b = Inr (?b\<lparr>pc := pc ?b + int 2,
            memory := (memory ?b)[nat (memPtr ?b) :=
              word_of_int (go_rem (uint (memory ?b ! nat (memPtr ?b)) - int 2) 255)]\<rparr>, [])"
    using fused_inc_dec_mod_255 [of ?b 2 chMinus] run2 by (simp add: inBounds_def)
  ultimately show ?thesis by (simp add: go_rem_def)
qed

subsection \<open>Invoking opcodes\<close>

lemma word16_hi: "ucast (drop_bit 8 (push_bit 8 (ucast (b1::byte)) OR ucast (b0::byte) :: 16 word)) = b1"
  by (rule bit_word_eqI) (auto simp add: bit_simps dest: bit_imp_le_length)

lemma word16_lo: "ucast (push_bit 8 (ucast (b1::byte)) OR ucast (b0::byte) :: 16 word) = b0"
  by (rule bit_word_eqI) (auto simp add: bit_simps dest: bit_imp_le_length)

lemma word32_b3:
  "ucast (drop_bit 24 (push_bit 24 (ucast (b3::byte)) OR push_bit 16 (ucast (b2::byte)) OR
     push_bit 8 (ucast (b1::byte)) OR ucast (b0::byte) :: 32 word)) = b3"
  by (rule bit_word_eqI) (auto simp add: bit_simps dest: bit_imp_le_length)

lemma word32_b2:
  "ucast (drop_bit 16 (push_bit 24 (ucast (b3::byte)) OR push_bit 16 (ucast (b2::byte)) OR
     push_bit 8 (ucast (b1::byte)) OR ucast (b0::byte) :: 32 word)) = b2"
  by (rule bit_word_eqI) (auto simp add: bit_simps dest: bit_imp_le_length)

lemma word32_b1:
  "ucast (drop_bit 8 (push_bit 24 (ucast (b3::byte)) OR push_bit 16 (ucast (b2::byte)) OR
     push_bit 8 (ucast (b1::byte)) OR ucast (b0::byte) :: 32 word)) = b1"
  by (rule bit_word_eqI) (auto simp add: bit_simps dest: bit_imp_le_length)

lemma word32_b0:
  "ucast (push_bit 24 (ucast (b3::byte)) OR push_bit 16 (ucast (b2::byte)) OR
     push_bit 8 (ucast (b1::byte)) OR ucast (b0::byte) :: 32 word) = b0"
  by (rule bit_word_eqI) (auto simp add: bit_simps dest: bit_imp_le_length)

text \<open>The Op of an invoke with at least eight bytes before the pointer.\<close>

lemma invokeOp_full:
  assumes "8 \<le> memPtr p" "inBounds p (memPtr p)"
  shows "invokeOp p = Inr \<lparr>code = memory p ! nat (memPtr p),
           args = take 8 (drop (nat (memPtr p - 8)) (memory p))\<rparr>"
proof -
  have "length (take 8 (drop (nat (memPtr p - 8)) (memory p))) = 8"
    using assms by (simp add: inBounds_def)
  then show ?thesis using assms
    by (simp add: invokeOp_def Program_Byte_def Let_def)
qed

lemma invokeOp_full_Byte:
  assumes "8 \<le> memPtr p" "inBounds p (memPtr p)" "invokeOp p = Inr op" "0 \<le> i" "i < 8"
  shows "Op_Byte op i = Inr (memory p ! nat (memPtr p - 1 - i))"
proof -
  have op: "op = \<lparr>code = memory p ! nat (memPtr p),
           args = take 8 (drop (nat (memPtr p - 8)) (memory p))\<rparr>"
    using invokeOp_full [OF assms(1,2)] assms(3) by simp
  have len: "length (args op) = 8" using assms(1,2) by (simp add: op inBounds_def)
  have "nat (memPtr p - 8) + nat (7 - i) = nat (memPtr p - 1 - i)"
    using assms by simp
  then have "args op ! nat (7 - i) = memory p ! nat (memPtr p - 1 - i)"
    using assms by (simp add: op inBounds_def)
  then show ?thesis using Op_Byte_args [OF len assms(4,5)] by simp
qed

lemma bindE_nothing:
  "(\<exists>e. bindE m (\<lambda>x. Inr (f x, [])) = Inl e) \<or> (\<exists>p'. bindE m (\<lambda>x. Inr (f x, [])) = Inr (p', []))"
  by (cases m) auto

lemma step_invoke:
  "inBounds p (pc p) \<Longrightarrow> memory p ! nat (pc p) = chDot \<Longrightarrow> invokeOp p = Inr op \<Longrightarrow>
     Program_Op p op = Inr (p', sent) \<Longrightarrow> step p = Inr (next_pc p', sent)"
  by (simp add: step_def Program_Byte_def)

text \<open>
  Claim C3: dispatching an Op whose opcode is outside the internal table (0, 1, 2 and
  20 to 31) raises no error, leaves the machine unchanged and sends exactly that Op;
  dispatching an Op of the internal table sends nothing (it updates the machine, or
  panics on an out-of-range store). Invoking with 41 in the current cell sends exactly
  one Op, with code 41 and the bytes preceding the tape pointer as arguments: the
  eight bytes before the pointer, or, nearer than eight cells to the start of memory,
  the bytes from index 0 followed by zeros.
\<close>

theorem dispatch_forwarding:
  "(code op \<notin> {0, 1, 2, 20, 21, 22, 23, 24, 25, 26, 27, 28, 29, 30, 31} \<longrightarrow>
      Program_Op p op = Inr (p, [op])) \<and>
   (code op \<in> {0, 1, 2, 20, 21, 22, 23, 24, 25, 26, 27, 28, 29, 30, 31} \<longrightarrow>
      (\<exists>e. Program_Op p op = Inl e) \<or> (\<exists>p'. Program_Op p op = Inr (p', []))) \<and>
   (inBounds p (pc p) \<and> memory p ! nat (pc p) = chDot \<and> inBounds p (memPtr p) \<and>
    memory p ! nat (memPtr p) = 41 \<longrightarrow>
      (\<exists>op. invokeOp p = Inr op \<and> code op = 41 \<and> step p = Inr (next_pc p, [op]) \<and>
         (8 \<le> memPtr p \<longrightarrow> args op = take 8 (drop (nat (memPtr p - 8)) (memory p))) \<and>
         (memPtr p < 8 \<longrightarrow>
            args op = take (nat (memPtr p)) (memory p) @ replicate (8 - nat (memPtr p)) 0)))"
proof (intro conjI impI)
  assume "code op \<notin> {0, 1, 2, 20, 21, 22, 23, 24, 25, 26, 27, 28, 29, 30, 31}"
  then show "Program_Op p op = Inr (p, [op])" by (simp add: Program_Op_def)
next
  assume "code op \<in> {0, 1, 2, 20, 21, 22, 23, 24, 25, 26, 27, 28, 29, 30, 31}"
  then show "(\<exists>e. Program_Op p op = Inl e) \<or> (\<exists>p'. Program_Op p op = Inr (p', []))"
    by (elim insertE emptyE; simp add: Program_Op_def Let_def bindE_nothing)
next
  assume a: "inBounds p (pc p) \<and> memory p ! nat (pc p) = chDot \<and> inBounds p (memPtr p) \<and>
    memory p ! nat (memPtr p) = 41"
  let ?lo = "if memPtr p - 8 < 0 then 0 else memPtr p - 8"
  let ?g = "take (nat (memPtr p - ?lo)) (drop (nat ?lo) (memory p))"
  let ?op = "\<lparr>code = 41, args = ?g @ replicate (8 - length ?g) 0\<rparr>"
  have inv: "invokeOp p = Inr ?op"
    using a by (simp add: invokeOp_def Program_Byte_def Let_def)
  have disp: "Program_Op p ?op = Inr (p, [?op])" by (simp add: Program_Op_def)
  have st0: "step p =
      bindE (invokeOp p) (\<lambda>op. bindE (Program_Op p op) (\<lambda>(p1, out). Inr (next_pc p1, out)))"
    using a by (simp add: step_def Program_Byte_def)
  have st: "step p = Inr (next_pc p, [?op])"
    by (simp only: st0 inv bindE_simps disp prod.case)
  have full: "8 \<le> memPtr p \<longrightarrow> args ?op = take 8 (drop (nat (memPtr p - 8)) (memory p))"
    using a by (auto simp add: inBounds_def)
  have part: "memPtr p < 8 \<longrightarrow>
      args ?op = take (nat (memPtr p)) (memory p) @ replicate (8 - nat (memPtr p)) 0"
    using a by (auto simp add: inBounds_def min_def)
  from inv st full part
  show "\<exists>op. invokeOp p = Inr op \<and> code op = 41 \<and> step p = Inr (next_pc p, [op]) \<and>
         (8 \<le> memPtr p \<longrightarrow> args op = take 8 (drop (nat (memPtr p - 8)) (memory p))) \<and>
         (memPtr p < 8 \<longrightarrow>
            args op = take (nat (memPtr p)) (memory p) @ replicate (8 - nat (memPtr p)) 0)"
    by (intro exI [of _ ?op]) simp
qed


theorem dispatch_forwarding_witness:
  "Program_Op \<lparr>memory = [chDot, 0, 1, 2, 3, 4, 5, 6, 7, 8, 41], dataStart = 2, pc = 0, r8a = 0,
      r8b = 0, r16a = 0, r16b = 0, r32a = 0, r32b = 0, memPtr = 10\<rparr>
     \<lparr>code = 41, args = [1, 2, 3, 4, 5, 6, 7, 8]\<rparr> =
   Inr (\<lparr>memory = [chDot, 0, 1, 2, 3, 4, 5, 6, 7, 8, 41], dataStart = 2, pc = 0, r8a = 0,
      r8b = 0, r16a = 0, r16b = 0, r32a = 0, r32b = 0, memPtr = 10\<rparr>,
     [\<lparr>code = 41, args = [1, 2, 3, 4, 5, 6, 7, 8]\<rparr>]) \<and>
   step \<lparr>memory = [chDot, 0, 1, 2, 3, 4, 5, 6, 7, 8, 41], dataStart = 2, pc = 0, r8a = 0,
      r8b = 0, r16a = 0, r16b = 0, r32a = 0, r32b = 0, memPtr = 10\<rparr> =
   Inr (\<lparr>memory = [chDot, 0, 1, 2, 3, 4, 5, 6, 7, 8, 41], dataStart = 2, pc = 1, r8a = 0,
      r8b = 0, r16a = 0, r16b = 0, r32a = 0, r32b = 0, memPtr = 10\<rparr>,
     [\<lparr>code = 41, args = [1, 2, 3, 4, 5, 6, 7, 8]\<rparr>])"
proof -
  let ?p = "\<lparr>memory = [chDot, 0, 1, 2, 3, 4, 5, 6, 7, 8, 41], dataStart = 2, pc = 0, r8a = 0,
      r8b = 0, r16a = 0, r16b = 0, r32a = 0, r32b = 0, memPtr = 10\<rparr>"
  let ?op = "\<lparr>code = 41, args = [1, 2, 3, 4, 5, 6, 7, 8]\<rparr>"
  have pre: "inBounds ?p (pc ?p) \<and> memory ?p ! nat (pc ?p) = chDot \<and> inBounds ?p (memPtr ?p) \<and>
    memory ?p ! nat (memPtr ?p) = 41"
    by (simp add: inBounds_def)
  have out: "code ?op \<notin> {0, 1, 2, 20, 21, 22, 23, 24, 25, 26, 27, 28, 29, 30, 31}" by simp
  from dispatch_forwarding [of ?op ?p] out pre
  have d: "Program_Op ?p ?op = Inr (?p, [?op])"
    and "\<exists>op. invokeOp ?p = Inr op \<and> code op = 41 \<and> step ?p = Inr (next_pc ?p, [op]) \<and>
         (8 \<le> memPtr ?p \<longrightarrow> args op = take 8 (drop (nat (memPtr ?p - 8)) (memory ?p))) \<and>
         (memPtr ?p < 8 \<longrightarrow>
            args op = take (nat (memPtr ?p)) (memory ?p) @ replicate (8 - nat (memPtr ?p)) 0)"
    by blast+
  then obtain op where o: "code op = 41" "step ?p = Inr (next_pc ?p, [op])"
    "args op = take 8 (drop (nat (memPtr ?p - 8)) (memory ?p))"
    by auto
  have "op = ?op" using o(1,3) by (cases op) simp
  with o(2) d show ?thesis by (simp add: next_pc_def)
qed

subsection \<open>Register stores and loads\<close>

lemma store_load_8a:
  assumes dot: "inBounds p (pc p)" "memory p ! nat (pc p) = chDot"
    and ptr: "8 \<le> memPtr p" "inBounds p (memPtr p)"
    and c: "memory p ! nat (memPtr p) = 20"
    and m': "length m' = length (memory p)" "0 \<le> pc'" "pc' < int (length m')"
      "m' ! nat pc' = chDot" "m' ! nat (memPtr p) = 26"
  shows "\<exists>p1 p3. step p = Inr (p1, []) \<and> memPtr p1 = memPtr p \<and>
      step (p1\<lparr>memory := m', pc := pc'\<rparr>) = Inr (p3, []) \<and> memPtr p3 = memPtr p \<and>
      memory p3 = m'[nat (memPtr p - 1) := memory p ! nat (memPtr p - 1)]"
proof -
  let ?op = "\<lparr>code = 20, args = take 8 (drop (nat (memPtr p - 8)) (memory p))\<rparr>"
  have inv: "invokeOp p = Inr ?op" using invokeOp_full [OF ptr] c by simp
  have b: "Op_Byte ?op 0 = Inr (memory p ! nat (memPtr p - 1))"
    "Op_Byte ?op 1 = Inr (memory p ! nat (memPtr p - 2))"
    "Op_Byte ?op 2 = Inr (memory p ! nat (memPtr p - 3))"
    "Op_Byte ?op 3 = Inr (memory p ! nat (memPtr p - 4))"
    using invokeOp_full_Byte [OF ptr inv, of 0] invokeOp_full_Byte [OF ptr inv, of 1]
      invokeOp_full_Byte [OF ptr inv, of 2] invokeOp_full_Byte [OF ptr inv, of 3]
    by simp_all
  let ?p1 = "next_pc (p\<lparr>r8a := memory p ! nat (memPtr p - 1)\<rparr>)"
  have s1: "step p = Inr (?p1, [])"
    by (rule step_invoke [OF dot inv]) (simp add: Program_Op_def Op_Word_def Op_QWord_def b)
  let ?p2 = "?p1\<lparr>memory := m', pc := pc'\<rparr>"
  have ptr2: "8 \<le> memPtr ?p2" "inBounds ?p2 (memPtr ?p2)"
    using ptr m' by (simp_all add: inBounds_def next_pc_def)
  have dot2: "inBounds ?p2 (pc ?p2)" "memory ?p2 ! nat (pc ?p2) = chDot"
    using m' by (simp_all add: inBounds_def)
  have inv2: "invokeOp ?p2 =
      Inr \<lparr>code = 26, args = take 8 (drop (nat (memPtr p - 8)) m')\<rparr>"
    using invokeOp_full [OF ptr2] m' by (simp add: next_pc_def)
  let ?p3 = "?p2\<lparr>memory := m'[nat (memPtr p - 1) := memory p ! nat (memPtr p - 1)]\<rparr>"
  have "Program_Op ?p2 \<lparr>code = 26, args = take 8 (drop (nat (memPtr p - 8)) m')\<rparr> =
      Inr (?p3, [])"
    using ptr m'
    by (simp add: Program_Op_def SetByte_def SetWord_def SetQWord_def inBounds_def next_pc_def
        word16_hi word16_lo word32_b3 word32_b2 word32_b1 word32_b0 del: drop_bit_or)
  from step_invoke [OF dot2 inv2 this] have s2: "step ?p2 = Inr (next_pc ?p3, [])" .
  show ?thesis using s1 s2 by (simp add: next_pc_def)
qed

lemma store_load_8b:
  assumes dot: "inBounds p (pc p)" "memory p ! nat (pc p) = chDot"
    and ptr: "8 \<le> memPtr p" "inBounds p (memPtr p)"
    and c: "memory p ! nat (memPtr p) = 21"
    and m': "length m' = length (memory p)" "0 \<le> pc'" "pc' < int (length m')"
      "m' ! nat pc' = chDot" "m' ! nat (memPtr p) = 27"
  shows "\<exists>p1 p3. step p = Inr (p1, []) \<and> memPtr p1 = memPtr p \<and>
      step (p1\<lparr>memory := m', pc := pc'\<rparr>) = Inr (p3, []) \<and> memPtr p3 = memPtr p \<and>
      memory p3 = m'[nat (memPtr p - 1) := memory p ! nat (memPtr p - 1)]"
proof -
  let ?op = "\<lparr>code = 21, args = take 8 (drop (nat (memPtr p - 8)) (memory p))\<rparr>"
  have inv: "invokeOp p = Inr ?op" using invokeOp_full [OF ptr] c by simp
  have b: "Op_Byte ?op 0 = Inr (memory p ! nat (memPtr p - 1))"
    "Op_Byte ?op 1 = Inr (memory p ! nat (memPtr p - 2))"
    "Op_Byte ?op 2 = Inr (memory p ! nat (memPtr p - 3))"
    "Op_Byte ?op 3 = Inr (memory p ! nat (memPtr p - 4))"
    using invokeOp_full_Byte [OF ptr inv, of 0] invokeOp_full_Byte [OF ptr inv, of 1]
      invokeOp_full_Byte [OF ptr inv, of 2] invokeOp_full_Byte [OF ptr inv, of 3]
    by simp_all
  let ?p1 = "next_pc (p\<lparr>r8b := memory p ! nat (memPtr p - 1)\<rparr>)"
  have s1: "step p = Inr (?p1, [])"
    by (rule step_invoke [OF dot inv]) (simp add: Program_Op_def Op_Word_def Op_QWord_def b)
  let ?p2 = "?p1\<lparr>memory := m', pc := pc'\<rparr>"
  have ptr2: "8 \<le> memPtr ?p2" "inBounds ?p2 (memPtr ?p2)"
    using ptr m' by (simp_all add: inBounds_def next_pc_def)
  have dot2: "inBounds ?p2 (pc ?p2)" "memory ?p2 ! nat (pc ?p2) = chDot"
    using m' by (simp_all add: inBounds_def)
  have inv2: "invokeOp ?p2 =
      Inr \<lparr>code = 27, args = take 8 (drop (nat (memPtr p - 8)) m')\<rparr>"
    using invokeOp_full [OF ptr2] m' by (simp add: next_pc_def)
  let ?p3 = "?p2\<lparr>memory := m'[nat (memPtr p - 1) := memory p ! nat (memPtr p - 1)]\<rparr>"
  have "Program_Op ?p2 \<lparr>code = 27, args = take 8 (drop (nat (memPtr p - 8)) m')\<rparr> =
      Inr (?p3, [])"
    using ptr m'
    by (simp add: Program_Op_def SetByte_def SetWord_def SetQWord_def inBounds_def next_pc_def
        word16_hi word16_lo word32_b3 word32_b2 word32_b1 word32_b0 del: drop_bit_or)
  from step_invoke [OF dot2 inv2 this] have s2: "step ?p2 = Inr (next_pc ?p3, [])" .
  show ?thesis using s1 s2 by (simp add: next_pc_def)
qed

lemma store_load_16a:
  assumes dot: "inBounds p (pc p)" "memory p ! nat (pc p) = chDot"
    and ptr: "8 \<le> memPtr p" "inBounds p (memPtr p)"
    and c: "memory p ! nat (memPtr p) = 22"
    and m': "length m' = length (memory p)" "0 \<le> pc'" "pc' < int (length m')"
      "m' ! nat pc' = chDot" "m' ! nat (memPtr p) = 28"
  shows "\<exists>p1 p3. step p = Inr (p1, []) \<and> memPtr p1 = memPtr p \<and>
      step (p1\<lparr>memory := m', pc := pc'\<rparr>) = Inr (p3, []) \<and> memPtr p3 = memPtr p \<and>
      memory p3 = m'[nat (memPtr p - 2) := memory p ! nat (memPtr p - 2), nat (memPtr p - 1) := memory p ! nat (memPtr p - 1)]"
proof -
  let ?op = "\<lparr>code = 22, args = take 8 (drop (nat (memPtr p - 8)) (memory p))\<rparr>"
  have inv: "invokeOp p = Inr ?op" using invokeOp_full [OF ptr] c by simp
  have b: "Op_Byte ?op 0 = Inr (memory p ! nat (memPtr p - 1))"
    "Op_Byte ?op 1 = Inr (memory p ! nat (memPtr p - 2))"
    "Op_Byte ?op 2 = Inr (memory p ! nat (memPtr p - 3))"
    "Op_Byte ?op 3 = Inr (memory p ! nat (memPtr p - 4))"
    using invokeOp_full_Byte [OF ptr inv, of 0] invokeOp_full_Byte [OF ptr inv, of 1]
      invokeOp_full_Byte [OF ptr inv, of 2] invokeOp_full_Byte [OF ptr inv, of 3]
    by simp_all
  let ?p1 = "next_pc (p\<lparr>r16a := push_bit 8 (ucast (memory p ! nat (memPtr p - 2))) OR ucast (memory p ! nat (memPtr p - 1))\<rparr>)"
  have s1: "step p = Inr (?p1, [])"
    by (rule step_invoke [OF dot inv]) (simp add: Program_Op_def Op_Word_def Op_QWord_def b)
  let ?p2 = "?p1\<lparr>memory := m', pc := pc'\<rparr>"
  have ptr2: "8 \<le> memPtr ?p2" "inBounds ?p2 (memPtr ?p2)"
    using ptr m' by (simp_all add: inBounds_def next_pc_def)
  have dot2: "inBounds ?p2 (pc ?p2)" "memory ?p2 ! nat (pc ?p2) = chDot"
    using m' by (simp_all add: inBounds_def)
  have inv2: "invokeOp ?p2 =
      Inr \<lparr>code = 28, args = take 8 (drop (nat (memPtr p - 8)) m')\<rparr>"
    using invokeOp_full [OF ptr2] m' by (simp add: next_pc_def)
  let ?p3 = "?p2\<lparr>memory := m'[nat (memPtr p - 2) := memory p ! nat (memPtr p - 2), nat (memPtr p - 1) := memory p ! nat (memPtr p - 1)]\<rparr>"
  have "Program_Op ?p2 \<lparr>code = 28, args = take 8 (drop (nat (memPtr p - 8)) m')\<rparr> =
      Inr (?p3, [])"
    using ptr m'
    by (simp add: Program_Op_def SetByte_def SetWord_def SetQWord_def inBounds_def next_pc_def
        word16_hi word16_lo word32_b3 word32_b2 word32_b1 word32_b0 del: drop_bit_or)
  from step_invoke [OF dot2 inv2 this] have s2: "step ?p2 = Inr (next_pc ?p3, [])" .
  show ?thesis using s1 s2 by (simp add: next_pc_def)
qed

lemma store_load_16b:
  assumes dot: "inBounds p (pc p)" "memory p ! nat (pc p) = chDot"
    and ptr: "8 \<le> memPtr p" "inBounds p (memPtr p)"
    and c: "memory p ! nat (memPtr p) = 23"
    and m': "length m' = length (memory p)" "0 \<le> pc'" "pc' < int (length m')"
      "m' ! nat pc' = chDot" "m' ! nat (memPtr p) = 29"
  shows "\<exists>p1 p3. step p = Inr (p1, []) \<and> memPtr p1 = memPtr p \<and>
      step (p1\<lparr>memory := m', pc := pc'\<rparr>) = Inr (p3, []) \<and> memPtr p3 = memPtr p \<and>
      memory p3 = m'[nat (memPtr p - 2) := memory p ! nat (memPtr p - 2), nat (memPtr p - 1) := memory p ! nat (memPtr p - 1)]"
proof -
  let ?op = "\<lparr>code = 23, args = take 8 (drop (nat (memPtr p - 8)) (memory p))\<rparr>"
  have inv: "invokeOp p = Inr ?op" using invokeOp_full [OF ptr] c by simp
  have b: "Op_Byte ?op 0 = Inr (memory p ! nat (memPtr p - 1))"
    "Op_Byte ?op 1 = Inr (memory p ! nat (memPtr p - 2))"
    "Op_Byte ?op 2 = Inr (memory p ! nat (memPtr p - 3))"
    "Op_Byte ?op 3 = Inr (memory p ! nat (memPtr p - 4))"
    using invokeOp_full_Byte [OF ptr inv, of 0] invokeOp_full_Byte [OF ptr inv, of 1]
      invokeOp_full_Byte [OF ptr inv, of 2] invokeOp_full_Byte [OF ptr inv, of 3]
    by simp_all
  let ?p1 = "next_pc (p\<lparr>r16b := push_bit 8 (ucast (memory p ! nat (memPtr p - 2))) OR ucast (memory p ! nat (memPtr p - 1))\<rparr>)"
  have s1: "step p = Inr (?p1, [])"
    by (rule step_invoke [OF dot inv]) (simp add: Program_Op_def Op_Word_def Op_QWord_def b)
  let ?p2 = "?p1\<lparr>memory := m', pc := pc'\<rparr>"
  have ptr2: "8 \<le> memPtr ?p2" "inBounds ?p2 (memPtr ?p2)"
    using ptr m' by (simp_all add: inBounds_def next_pc_def)
  have dot2: "inBounds ?p2 (pc ?p2)" "memory ?p2 ! nat (pc ?p2) = chDot"
    using m' by (simp_all add: inBounds_def)
  have inv2: "invokeOp ?p2 =
      Inr \<lparr>code = 29, args = take 8 (drop (nat (memPtr p - 8)) m')\<rparr>"
    using invokeOp_full [OF ptr2] m' by (simp add: next_pc_def)
  let ?p3 = "?p2\<lparr>memory := m'[nat (memPtr p - 2) := memory p ! nat (memPtr p - 2), nat (memPtr p - 1) := memory p ! nat (memPtr p - 1)]\<rparr>"
  have "Program_Op ?p2 \<lparr>code = 29, args = take 8 (drop (nat (memPtr p - 8)) m')\<rparr> =
      Inr (?p3, [])"
    using ptr m'
    by (simp add: Program_Op_def SetByte_def SetWord_def SetQWord_def inBounds_def next_pc_def
        word16_hi word16_lo word32_b3 word32_b2 word32_b1 word32_b0 del: drop_bit_or)
  from step_invoke [OF dot2 inv2 this] have s2: "step ?p2 = Inr (next_pc ?p3, [])" .
  show ?thesis using s1 s2 by (simp add: next_pc_def)
qed

lemma store_load_32a:
  assumes dot: "inBounds p (pc p)" "memory p ! nat (pc p) = chDot"
    and ptr: "8 \<le> memPtr p" "inBounds p (memPtr p)"
    and c: "memory p ! nat (memPtr p) = 24"
    and m': "length m' = length (memory p)" "0 \<le> pc'" "pc' < int (length m')"
      "m' ! nat pc' = chDot" "m' ! nat (memPtr p) = 30"
  shows "\<exists>p1 p3. step p = Inr (p1, []) \<and> memPtr p1 = memPtr p \<and>
      step (p1\<lparr>memory := m', pc := pc'\<rparr>) = Inr (p3, []) \<and> memPtr p3 = memPtr p \<and>
      memory p3 = m'[nat (memPtr p - 4) := memory p ! nat (memPtr p - 4), nat (memPtr p - 3) := memory p ! nat (memPtr p - 3),
        nat (memPtr p - 2) := memory p ! nat (memPtr p - 2), nat (memPtr p - 1) := memory p ! nat (memPtr p - 1)]"
proof -
  let ?op = "\<lparr>code = 24, args = take 8 (drop (nat (memPtr p - 8)) (memory p))\<rparr>"
  have inv: "invokeOp p = Inr ?op" using invokeOp_full [OF ptr] c by simp
  have b: "Op_Byte ?op 0 = Inr (memory p ! nat (memPtr p - 1))"
    "Op_Byte ?op 1 = Inr (memory p ! nat (memPtr p - 2))"
    "Op_Byte ?op 2 = Inr (memory p ! nat (memPtr p - 3))"
    "Op_Byte ?op 3 = Inr (memory p ! nat (memPtr p - 4))"
    using invokeOp_full_Byte [OF ptr inv, of 0] invokeOp_full_Byte [OF ptr inv, of 1]
      invokeOp_full_Byte [OF ptr inv, of 2] invokeOp_full_Byte [OF ptr inv, of 3]
    by simp_all
  let ?p1 = "next_pc (p\<lparr>r32a := push_bit 24 (ucast (memory p ! nat (memPtr p - 4))) OR push_bit 16 (ucast (memory p ! nat (memPtr p - 3))) OR push_bit 8 (ucast (memory p ! nat (memPtr p - 2))) OR ucast (memory p ! nat (memPtr p - 1))\<rparr>)"
  have s1: "step p = Inr (?p1, [])"
    by (rule step_invoke [OF dot inv]) (simp add: Program_Op_def Op_Word_def Op_QWord_def b)
  let ?p2 = "?p1\<lparr>memory := m', pc := pc'\<rparr>"
  have ptr2: "8 \<le> memPtr ?p2" "inBounds ?p2 (memPtr ?p2)"
    using ptr m' by (simp_all add: inBounds_def next_pc_def)
  have dot2: "inBounds ?p2 (pc ?p2)" "memory ?p2 ! nat (pc ?p2) = chDot"
    using m' by (simp_all add: inBounds_def)
  have inv2: "invokeOp ?p2 =
      Inr \<lparr>code = 30, args = take 8 (drop (nat (memPtr p - 8)) m')\<rparr>"
    using invokeOp_full [OF ptr2] m' by (simp add: next_pc_def)
  let ?p3 = "?p2\<lparr>memory := m'[nat (memPtr p - 4) := memory p ! nat (memPtr p - 4), nat (memPtr p - 3) := memory p ! nat (memPtr p - 3),
        nat (memPtr p - 2) := memory p ! nat (memPtr p - 2), nat (memPtr p - 1) := memory p ! nat (memPtr p - 1)]\<rparr>"
  have "Program_Op ?p2 \<lparr>code = 30, args = take 8 (drop (nat (memPtr p - 8)) m')\<rparr> =
      Inr (?p3, [])"
    using ptr m'
    by (simp add: Program_Op_def SetByte_def SetWord_def SetQWord_def inBounds_def next_pc_def
        word16_hi word16_lo word32_b3 word32_b2 word32_b1 word32_b0 del: drop_bit_or)
  from step_invoke [OF dot2 inv2 this] have s2: "step ?p2 = Inr (next_pc ?p3, [])" .
  show ?thesis using s1 s2 by (simp add: next_pc_def)
qed

lemma store_load_32b:
  assumes dot: "inBounds p (pc p)" "memory p ! nat (pc p) = chDot"
    and ptr: "8 \<le> memPtr p" "inBounds p (memPtr p)"
    and c: "memory p ! nat (memPtr p) = 25"
    and m': "length m' = length (memory p)" "0 \<le> pc'" "pc' < int (length m')"
      "m' ! nat pc' = chDot" "m' ! nat (memPtr p) = 31"
  shows "\<exists>p1 p3. step p = Inr (p1, []) \<and> memPtr p1 = memPtr p \<and>
      step (p1\<lparr>memory := m', pc := pc'\<rparr>) = Inr (p3, []) \<and> memPtr p3 = memPtr p \<and>
      memory p3 = m'[nat (memPtr p - 4) := memory p ! nat (memPtr p - 4), nat (memPtr p - 3) := memory p ! nat (memPtr p - 3),
        nat (memPtr p - 2) := memory p ! nat (memPtr p - 2), nat (memPtr p - 1) := memory p ! nat (memPtr p - 1)]"
proof -
  let ?op = "\<lparr>code = 25, args = take 8 (drop (nat (memPtr p - 8)) (memory p))\<rparr>"
  have inv: "invokeOp p = Inr ?op" using invokeOp_full [OF ptr] c by simp
  have b: "Op_Byte ?op 0 = Inr (memory p ! nat (memPtr p - 1))"
    "Op_Byte ?op 1 = Inr (memory p ! nat (memPtr p - 2))"
    "Op_Byte ?op 2 = Inr (memory p ! nat (memPtr p - 3))"
    "Op_Byte ?op 3 = Inr (memory p ! nat (memPtr p - 4))"
    using invokeOp_full_Byte [OF ptr inv, of 0] invokeOp_full_Byte [OF ptr inv, of 1]
      invokeOp_full_Byte [OF ptr inv, of 2] invokeOp_full_Byte [OF ptr inv, of 3]
    by simp_all
  let ?p1 = "next_pc (p\<lparr>r32b := push_bit 24 (ucast (memory p ! nat (memPtr p - 4))) OR push_bit 16 (ucast (memory p ! nat (memPtr p - 3))) OR push_bit 8 (ucast (memory p ! nat (memPtr p - 2))) OR ucast (memory p ! nat (memPtr p - 1))\<rparr>)"
  have s1: "step p = Inr (?p1, [])"
    by (rule step_invoke [OF dot inv]) (simp add: Program_Op_def Op_Word_def Op_QWord_def b)
  let ?p2 = "?p1\<lparr>memory := m', pc := pc'\<rparr>"
  have ptr2: "8 \<le> memPtr ?p2" "inBounds ?p2 (memPtr ?p2)"
    using ptr m' by (simp_all add: inBounds_def next_pc_def)
  have dot2: "inBounds ?p2 (pc ?p2)" "memory ?p2 ! nat (pc ?p2) = chDot"
    using m' by (simp_all add: inBounds_def)
  have inv2: "invokeOp ?p2 =
      Inr \<lparr>code = 31, args = take 8 (drop (nat (memPtr p - 8)) m')\<rparr>"
    using invokeOp_full [OF ptr2] m' by (simp add: next_pc_def)
  let ?p3 = "?p2\<lparr>memory := m'[nat (memPtr p - 4) := memory p ! nat (memPtr p - 4), nat (memPtr p - 3) := memory p ! nat (memPtr p - 3),
        nat (memPtr p - 2) := memory p ! nat (memPtr p - 2), nat (memPtr p - 1) := memory p ! nat (memPtr p - 1)]\<rparr>"
  have "Program_Op ?p2 \<lparr>code = 31, args = take 8 (drop (nat (memPtr p - 8)) m')\<rparr> =
      Inr (?p3, [])"
    using ptr m'
    by (simp add: Program_Op_def SetByte_def SetWord_def SetQWord_def inBounds_def next_pc_def
        word16_hi word16_lo word32_b3 word32_b2 word32_b1 word32_b0 del: drop_bit_or)
  from step_invoke [OF dot2 inv2 this] have s2: "step ?p2 = Inr (next_pc ?p3, [])" .
  show ?thesis using s1 s2 by (simp add: next_pc_def)
qed

text \<open>
  Claim C4: with the tape pointer at least eight cells from the start of memory, invoking
  a register-store opcode (20 to 25: one, one, two, two, four, four bytes) and then, with
  the tape pointer and the registers as the store left them and the current cell changed
  to the paired load opcode (26 to 31), invoking the load writes the original argument
  bytes back into the cells they came from, whatever the memory holds by then, and changes
  no other cell; neither invocation sends an Op.
\<close>

theorem register_store_load_round_trip:
  "inBounds p (pc p) \<and> memory p ! nat (pc p) = chDot \<and> 8 \<le> memPtr p \<and>
   inBounds p (memPtr p) \<and> memory p ! nat (memPtr p) = c \<and> c \<in> {20, 21, 22, 23, 24, 25} \<and>
   length m' = length (memory p) \<and> 0 \<le> pc' \<and> pc' < int (length m') \<and>
   m' ! nat pc' = chDot \<and> m' ! nat (memPtr p) = c + 6 \<longrightarrow>
    (\<exists>p1 p3. step p = Inr (p1, []) \<and> memPtr p1 = memPtr p \<and>
       step (p1\<lparr>memory := m', pc := pc'\<rparr>) = Inr (p3, []) \<and> memPtr p3 = memPtr p \<and>
       memory p3 =
         (if c \<in> {20, 21} then
            m'[nat (memPtr p - 1) := memory p ! nat (memPtr p - 1)]
          else if c \<in> {22, 23} then
            m'[nat (memPtr p - 2) := memory p ! nat (memPtr p - 2), nat (memPtr p - 1) := memory p ! nat (memPtr p - 1)]
          else
            m'[nat (memPtr p - 4) := memory p ! nat (memPtr p - 4), nat (memPtr p - 3) := memory p ! nat (memPtr p - 3),
              nat (memPtr p - 2) := memory p ! nat (memPtr p - 2), nat (memPtr p - 1) := memory p ! nat (memPtr p - 1)]))"
proof
  assume a: "inBounds p (pc p) \<and> memory p ! nat (pc p) = chDot \<and> 8 \<le> memPtr p \<and>
   inBounds p (memPtr p) \<and> memory p ! nat (memPtr p) = c \<and> c \<in> {20, 21, 22, 23, 24, 25} \<and>
   length m' = length (memory p) \<and> 0 \<le> pc' \<and> pc' < int (length m') \<and>
   m' ! nat pc' = chDot \<and> m' ! nat (memPtr p) = c + 6"
  then consider "c = 20" | "c = 21" | "c = 22" | "c = 23" | "c = 24" | "c = 25" by auto
  then show "(\<exists>p1 p3. step p = Inr (p1, []) \<and> memPtr p1 = memPtr p \<and>
         step (p1\<lparr>memory := m', pc := pc'\<rparr>) = Inr (p3, []) \<and> memPtr p3 = memPtr p \<and>
         memory p3 =
           (if c \<in> {20, 21} then
              m'[nat (memPtr p - 1) := memory p ! nat (memPtr p - 1)]
            else if c \<in> {22, 23} then
              m'[nat (memPtr p - 2) := memory p ! nat (memPtr p - 2), nat (memPtr p - 1) := memory p ! nat (memPtr p - 1)]
            else
              m'[nat (memPtr p - 4) := memory p ! nat (memPtr p - 4), nat (memPtr p - 3) := memory p ! nat (memPtr p - 3),
                nat (memPtr p - 2) := memory p ! nat (memPtr p - 2), nat (memPtr p - 1) := memory p ! nat (memPtr p - 1)]))"
  proof cases
    case 1
    then show ?thesis using a store_load_8a [of p m' pc'] by simp
  next
    case 2
    then show ?thesis using a store_load_8b [of p m' pc'] by simp
  next
    case 3
    then show ?thesis using a store_load_16a [of p m' pc'] by simp
  next
    case 4
    then show ?thesis using a store_load_16b [of p m' pc'] by simp
  next
    case 5
    then show ?thesis using a store_load_32a [of p m' pc'] by simp
  next
    case 6
    then show ?thesis using a store_load_32b [of p m' pc'] by simp
  qed
qed

theorem register_store_load_round_trip_witness:
  "\<exists>p1 p3.
     step \<lparr>memory = [chDot, chDot, 0, 0, 0, 0, 0, 1, 4, 22], dataStart = 2, pc = 0, r8a = 0,
       r8b = 0, r16a = 0, r16b = 0, r32a = 0, r32b = 0, memPtr = 9\<rparr> = Inr (p1, []) \<and>
     step (p1\<lparr>memory := [chDot, chDot, 0, 0, 0, 0, 0, 7, 7, 28], pc := 1\<rparr>) = Inr (p3, []) \<and>
     memory p3 = [chDot, chDot, 0, 0, 0, 0, 0, 1, 4, 28]"
proof -
  let ?p = "\<lparr>memory = [chDot, chDot, 0, 0, 0, 0, 0, 1, 4, 22], dataStart = 2, pc = 0, r8a = 0,
       r8b = 0, r16a = 0, r16b = 0, r32a = 0, r32b = 0, memPtr = 9\<rparr>"
  let ?m = "[chDot, chDot, 0, 0, 0, 0, 0, 7, 7, 28] :: byte list"
  have pre: "inBounds ?p (pc ?p) \<and> memory ?p ! nat (pc ?p) = chDot \<and> 8 \<le> memPtr ?p \<and>
   inBounds ?p (memPtr ?p) \<and> memory ?p ! nat (memPtr ?p) = 22 \<and>
   (22::byte) \<in> {20, 21, 22, 23, 24, 25} \<and>
   length ?m = length (memory ?p) \<and> 0 \<le> (1::int) \<and> 1 < int (length ?m) \<and>
   ?m ! nat 1 = chDot \<and> ?m ! nat (memPtr ?p) = 22 + 6"
    by (simp add: inBounds_def)
  from register_store_load_round_trip [of ?p 22 ?m 1, rule_format, OF pre]
  obtain p1 p3 where "step ?p = Inr (p1, [])"
    "step (p1\<lparr>memory := ?m, pc := 1\<rparr>) = Inr (p3, [])"
    "memory p3 = ?m[nat (memPtr ?p - 2) := memory ?p ! nat (memPtr ?p - 2),
        nat (memPtr ?p - 1) := memory ?p ! nat (memPtr ?p - 1)]"
    by auto
  moreover have "?m[nat (memPtr ?p - 2) := memory ?p ! nat (memPtr ?p - 2),
        nat (memPtr ?p - 1) := memory ?p ! nat (memPtr ?p - 1)] =
      [chDot, chDot, 0, 0, 0, 0, 0, 1, 4, 28]"
    by (simp add: numeral_eq_Suc)
  ultimately show ?thesis by metis
qed

subsection \<open>The arguments of an invoke\<close>

lemma runLoop_numeral:
  "runLoop (numeral k) p sent =
     (case Program_Byte p (pc p) of
        Inl e \<Rightarrow> Some (Inl e)
      | Inr b \<Rightarrow>
          if b = 0 then Some (Inr (p, sent))
          else (case step p of
                  Inl e \<Rightarrow> Some (Inl e)
                | Inr (p', sent') \<Rightarrow> runLoop (pred_numeral k) p' (sent @ sent')))"
  by (simp add: numeral_eq_Suc)

lemmas jump_eval = openScan.simps closeScan.simps JumpToOpenLoop_def JumpToCloseLoop_def

lemma invokeOp_near_start:
  assumes "memPtr p < 8" "inBounds p (memPtr p)"
  shows "invokeOp p = Inr \<lparr>code = memory p ! nat (memPtr p),
           args = take (nat (memPtr p)) (memory p) @ replicate (8 - nat (memPtr p)) 0\<rparr>"
proof -
  have "nat (memPtr p) \<le> length (memory p)" using assms by (auto simp add: inBounds_def)
  then have "min (length (memory p)) (nat (memPtr p)) = nat (memPtr p)" by simp
  then show ?thesis using assms by (simp add: invokeOp_def Program_Byte_def)
qed

lemma invokeOp_near_start_Byte0:
  assumes "memPtr p < 8" "inBounds p (memPtr p)" "invokeOp p = Inr op"
  shows "Op_Byte op 0 = Inr 0"
proof -
  let ?g = "take (nat (memPtr p)) (memory p)"
  have op: "op = \<lparr>code = memory p ! nat (memPtr p), args = ?g @ replicate (8 - nat (memPtr p)) 0\<rparr>"
    using invokeOp_near_start [OF assms(1,2)] assms(3) by simp
  have "nat (memPtr p) \<le> length (memory p)" using assms by (auto simp add: inBounds_def)
  then have lg: "length ?g = nat (memPtr p)" by simp
  have n8: "nat (memPtr p) < 8" using assms(1) by simp
  have len: "length (args op) = 8" using n8 lg by (simp add: op)
  have "args op ! 7 = replicate (8 - nat (memPtr p)) 0 ! (7 - nat (memPtr p))"
    using n8 lg unfolding op by (simp add: nth_append)
  also have "\<dots> = 0" using n8 by simp
  finally show ?thesis using Op_Byte_args [OF len, of 0] by simp
qed

lemma run_near_start:
  "\<exists>p0 q op. NewProgram (bytes ''<<<<<<<<<<<[<]>>>.'') = Inr p0 \<and>
     Run 41 p0 = Some (Inr (q, [op])) \<and> memPtr q = 2 \<and> memory q ! 1 = chLeft \<and>
     args op = [chLeft, chLeft, 0, 0, 0, 0, 0, 0] \<and> Op_Byte op 0 = Inr 0"
proof -
  let ?code = "[chLeft, chLeft, chLeft, chLeft, chLeft, chLeft, chLeft, chLeft, chLeft, chLeft,
     chLeft, chOpen, chLeft, chClose, chRight, chRight, chRight, chDot]"
  let ?p0 = "\<lparr>memory = ?code @ replicate 30010 0,
          dataStart = 28, pc = 0, r8a = 0, r8b = 0, r16a = 0, r16b = 0, r32a = 0, r32b = 0,
          memPtr = 28\<rparr>"
  let ?q = "\<lparr>memory = ?code @ replicate 30010 0,
          dataStart = 28, pc = 18, r8a = 0, r8b = 0, r16a = 0, r16b = 0, r32a = 0, r32b = 0,
          memPtr = 2\<rparr>"
  let ?op = "\<lparr>code = chLeft, args = [chLeft, chLeft, 0, 0, 0, 0, 0, 0]\<rparr>"
  have load: "NewProgram (bytes ''<<<<<<<<<<<[<]>>>.'') = Inr ?p0"
    by (simp add: NewProgram_def ValidateBrainfuck_def bytes_def isInstr_def)
  have six: "replicate 6 (0::byte) = [0, 0, 0, 0, 0, 0]" by (simp add: numeral_eq_Suc)
  have "runLoop 41 ?p0 [] = Some (Inr (?q, [?op]))"
    by (simp add: runLoop_numeral vm_eval jump_eval invokeOp_def Program_Op_def six)
  then have run: "Run 41 ?p0 = Some (Inr (?q, [?op]))"
    by (simp add: Run_def)
  have b0: "Op_Byte ?op 0 = Inr 0" by (simp add: Op_Byte_def)
  from load run b0 show ?thesis by (intro exI [of _ ?p0] exI [of _ ?q] exI [of _ ?op]) simp
qed

text \<open>
  Claim C7: where the tape pointer is at least eight cells from the start of memory,
  argument byte \<open>i\<close> of the Op an invoke builds is the byte at \<open>memPtr - 1 - i\<close>, for
  \<open>i\<close> from 0 to 7. Nearer the start of memory it is not: the gathered bytes are
  copied to the front of the zeroed array, so that \<open>Byte(0)\<close>, the last array element,
  is 0 and not the byte before the pointer. The program \<open><<<<<<<<<<<[<]>>>.\<close> walks
  the pointer down the code segment, wraps it to index 2 and invokes there: the Op has
  the arguments \<open>60, 60, 0, 0, 0, 0, 0, 0\<close> and \<open>Byte(0) = 0\<close>, while the byte before
  the pointer is 60.
\<close>

theorem invoke_argument_order:
  "(8 \<le> memPtr p \<and> inBounds p (memPtr p) \<and> 0 \<le> i \<and> i < 8 \<longrightarrow>
      (\<exists>op. invokeOp p = Inr op \<and> code op = memory p ! nat (memPtr p) \<and>
         Op_Byte op i = Inr (memory p ! nat (memPtr p - 1 - i)))) \<and>
   (memPtr p < 8 \<and> inBounds p (memPtr p) \<longrightarrow>
      (\<exists>op. invokeOp p = Inr op \<and> Op_Byte op 0 = Inr 0)) \<and>
   (\<exists>p0 q op. NewProgram (bytes ''<<<<<<<<<<<[<]>>>.'') = Inr p0 \<and>
      Run 41 p0 = Some (Inr (q, [op])) \<and> memPtr q = 2 \<and> memory q ! 1 = chLeft \<and>
      args op = [chLeft, chLeft, 0, 0, 0, 0, 0, 0] \<and> Op_Byte op 0 = Inr 0)"
proof (intro conjI impI)
  assume a: "8 \<le> memPtr p \<and> inBounds p (memPtr p) \<and> 0 \<le> i \<and> i < 8"
  then have inv: "invokeOp p = Inr \<lparr>code = memory p ! nat (memPtr p),
           args = take 8 (drop (nat (memPtr p - 8)) (memory p))\<rparr>"
    by (simp add: invokeOp_full)
  from a invokeOp_full_Byte [OF _ _ inv, of i]
  show "\<exists>op. invokeOp p = Inr op \<and> code op = memory p ! nat (memPtr p) \<and>
         Op_Byte op i = Inr (memory p ! nat (memPtr p - 1 - i))"
    by (simp add: inv)
next
  assume a: "memPtr p < 8 \<and> inBounds p (memPtr p)"
  then have inv: "invokeOp p = Inr \<lparr>code = memory p ! nat (memPtr p),
           args = take (nat (memPtr p)) (memory p) @ replicate (8 - nat (memPtr p)) 0\<rparr>"
    by (simp add: invokeOp_near_start)
  from a invokeOp_near_start_Byte0 [OF _ _ inv]
  show "\<exists>op. invokeOp p = Inr op \<and> Op_Byte op 0 = Inr 0" by (simp add: inv)
next
  show "\<exists>p0 q op. NewProgram (bytes ''<<<<<<<<<<<[<]>>>.'') = Inr p0 \<and>
      Run 41 p0 = Some (Inr (q, [op])) \<and> memPtr q = 2 \<and> memory q ! 1 = chLeft \<and>
      args op = [chLeft, chLeft, 0, 0, 0, 0, 0, 0] \<and> Op_Byte op 0 = Inr 0"
    by (rule run_near_start)
qed

theorem invoke_argument_order_witness:
  "\<exists>op. invokeOp \<lparr>memory = [chDot, 0, 1, 2, 3, 4, 5, 6, 7, 8, 41], dataStart = 2, pc = 0,
       r8a = 0, r8b = 0, r16a = 0, r16b = 0, r32a = 0, r32b = 0, memPtr = 10\<rparr> = Inr op \<and>
     Op_Byte op 2 = Inr 6"
proof -
  let ?p = "\<lparr>memory = [chDot, 0, 1, 2, 3, 4, 5, 6, 7, 8, 41], dataStart = 2, pc = 0,
       r8a = 0, r8b = 0, r16a = 0, r16b = 0, r32a = 0, r32b = 0, memPtr = 10\<rparr>"
  have pre: "8 \<le> memPtr ?p \<and> inBounds ?p (memPtr ?p) \<and> 0 \<le> (2::int) \<and> (2::int) < 8"
    by (simp add: inBounds_def)
  from invoke_argument_order [of ?p 2] pre
  obtain op where "invokeOp ?p = Inr op" "Op_Byte op 2 = Inr (memory ?p ! nat (memPtr ?p - 1 - 2))"
    by blast
  then show ?thesis by (intro exI [of _ op]) simp
qed

subsection \<open>The clear idiom\<close>

lemma take3_drop:
  "n + 2 < length xs \<Longrightarrow> take 3 (drop n xs) = [xs ! n, xs ! (n + 1), xs ! (n + 2)]"
proof -
  assume a: "n + 2 < length xs"
  have "drop n xs = xs ! n # drop (Suc n) xs" using a by (simp add: Cons_nth_drop_Suc)
  moreover have "drop (Suc n) xs = xs ! (n + 1) # drop (Suc (Suc n)) xs"
    using a by (simp add: Cons_nth_drop_Suc)
  moreover have "drop (Suc (Suc n)) xs = xs ! (n + 2) # drop (Suc (Suc (Suc n))) xs"
    using a by (simp add: Cons_nth_drop_Suc)
  ultimately show ?thesis by (simp add: numeral_3_eq_3)
qed

lemma idiomAt_take:
  assumes "idiomAt mem i"
  shows "take 3 (drop (nat i) mem) = [chOpen, chMinus, chClose]"
proof -
  have "nat i + 2 < length mem" using assms unfolding idiomAt_def by linarith
  moreover have "nat (i + 1) = nat i + 1" "nat (i + 2) = nat i + 2"
    using assms unfolding idiomAt_def by linarith+
  ultimately show ?thesis using take3_drop [of "nat i" mem] assms
    by (simp add: idiomAt_def)
qed

lemma idiomAt_update:
  assumes "idiomAt mem i" "0 \<le> j" "j \<noteq> i" "j \<noteq> i + 1" "j \<noteq> i + 2"
  shows "idiomAt (mem[nat j := w]) i"
proof -
  have "nat j \<noteq> nat i" "nat j \<noteq> nat (i + 1)" "nat j \<noteq> nat (i + 2)"
    using assms unfolding idiomAt_def by linarith+
  then show ?thesis using assms by (simp add: idiomAt_def)
qed

lemma closeScan_idiom:
  assumes "idiomAt mem i"
  shows "closeScan mem i 0 = Inr (i + 2)"
proof -
  have c: "closeScan mem (i + 2) 1 = Inr (i + 2)"
    using assms by (subst closeScan.simps) (simp add: idiomAt_def)
  have b: "closeScan mem (i + 1) 1 = Inr (i + 2)"
    using assms c by (subst closeScan.simps) (simp add: idiomAt_def add.assoc)
  show ?thesis using assms b by (subst closeScan.simps) (simp add: idiomAt_def)
qed

lemma openScan_idiom:
  assumes "idiomAt mem i"
  shows "openScan mem (i + 2) 0 = Inr i"
proof -
  have m1: "mem ! nat (1 + i) = chMinus" using assms by (simp add: idiomAt_def add.commute)
  have a: "openScan mem i 1 = Inr i"
    using assms by (subst openScan.simps) (simp add: idiomAt_def)
  have b: "openScan mem (1 + i) 1 = Inr i"
    using assms a m1 by (subst openScan.simps) (simp add: idiomAt_def)
  show ?thesis using assms b by (subst openScan.simps) (simp add: idiomAt_def)
qed

lemma runLoopLiteral_step:
  "Program_Byte p (pc p) = Inr b \<Longrightarrow> b \<noteq> 0 \<Longrightarrow> stepLiteral p = Inr (p', sent') \<Longrightarrow>
     runLoopLiteral (Suc n) p sent = runLoopLiteral n p' (sent @ sent')"
  by simp

lemma step_clear_idiom:
  assumes "idiomAt (memory p) (pc p)" "inBounds p (memPtr p)"
  shows "step p = Inr (p\<lparr>memory := (memory p)[nat (memPtr p) := 0], pc := pc p + 3\<rparr>, [])"
proof -
  have "inBounds p (pc p)" "memory p ! nat (pc p) = chOpen" "\<not> pc p + 3 > int (length (memory p))"
    using assms(1) by (simp_all add: idiomAt_def inBounds_def)
  then show ?thesis using assms(2) idiomAt_take [OF assms(1)]
    by (simp add: step_def Program_Byte_def SetByte_def next_pc_def)
qed

lemma literal_open_zero:
  assumes "idiomAt (memory p) (pc p)" "inBounds p (memPtr p)" "memory p ! nat (memPtr p) = 0"
  shows "stepLiteral p = Inr (p\<lparr>pc := pc p + 3\<rparr>, [])"
proof -
  have "inBounds p (pc p)" "memory p ! nat (pc p) = chOpen"
    using assms(1) by (simp_all add: idiomAt_def inBounds_def)
  then show ?thesis using assms(2,3) closeScan_idiom [OF assms(1)]
    by (simp add: stepLiteral_def Program_Byte_def JumpToCloseLoop_def next_pc_def)
qed

lemma literal_open_nonzero:
  assumes "idiomAt (memory p) (pc p)" "inBounds p (memPtr p)" "memory p ! nat (memPtr p) \<noteq> 0"
  shows "stepLiteral p = Inr (p\<lparr>pc := pc p + 1\<rparr>, [])"
proof -
  have "inBounds p (pc p)" "memory p ! nat (pc p) = chOpen"
    using assms(1) by (simp_all add: idiomAt_def inBounds_def)
  then show ?thesis using assms(2,3)
    by (simp add: stepLiteral_def Program_Byte_def next_pc_def)
qed

lemma dec_byte:
  assumes "(w::byte) \<noteq> 0"
  shows "word_of_int (go_rem (uint w - 1) 255) = w - 1"
proof -
  have "uint w \<noteq> 0" using assms by (simp add: uint_0_iff)
  then have pos: "0 \<le> uint w - 1" using uint_ge_0 [of w] by linarith
  have "uint w < 256" using uint_bounded [of w] by simp
  then have "uint w - 1 < 255" by linarith
  then have "go_rem (uint w - 1) 255 = uint w - 1"
    using pos by (simp add: go_rem_nonneg)
  then show ?thesis by simp
qed

lemma literal_minus:
  assumes "idiomAt (memory q) (pc q - 1)" "inBounds q (memPtr q)"
    "memory q ! nat (memPtr q) \<noteq> 0"
  shows "stepLiteral q = Inr (q\<lparr>pc := pc q + 1,
      memory := (memory q)[nat (memPtr q) := memory q ! nat (memPtr q) - 1]\<rparr>, [])"
proof -
  have m: "memory q ! nat (pc q) = chMinus" "memory q ! nat (pc q + 1) = chClose"
    "0 \<le> pc q" "pc q + 1 < int (length (memory q))"
    using assms(1) by (simp_all add: idiomAt_def add.commute)
  have run: "\<forall>j<1. memory q ! nat (pc q + int j) = chMinus" using m by simp
  have stop: "memory q ! nat (pc q + int 1) \<noteq> chMinus" using m by simp
  have "Program_Byte q (pc q) \<noteq> Inr chOpen" using m by (simp add: Program_Byte_def inBounds_def)
  then have "stepLiteral q = step q" by (simp add: stepLiteral_def)
  also have "\<dots> = Inr (q\<lparr>pc := pc q + int 1,
            memory := (memory q)[nat (memPtr q) :=
              word_of_int (go_rem (uint (memory q ! nat (memPtr q)) - int 1) 255)]\<rparr>, [])"
    using m by (intro step_minus_run run stop assms(2)) simp_all
  finally show ?thesis by (simp add: dec_byte [OF assms(3)])
qed

lemma literal_close_zero:
  assumes "idiomAt (memory r) (pc r - 2)" "inBounds r (memPtr r)" "memory r ! nat (memPtr r) = 0"
  shows "stepLiteral r = Inr (r\<lparr>pc := pc r + 1\<rparr>, [])"
proof -
  have m: "memory r ! nat (pc r) = chClose" "inBounds r (pc r)"
    using assms(1) by (simp_all add: idiomAt_def inBounds_def)
  then show ?thesis using assms(2,3)
    by (simp add: stepLiteral_def step_def Program_Byte_def next_pc_def)
qed

lemma literal_close_nonzero:
  assumes "idiomAt (memory r) (pc r - 2)" "inBounds r (memPtr r)" "memory r ! nat (memPtr r) \<noteq> 0"
  shows "stepLiteral r = Inr (r\<lparr>pc := pc r - 1\<rparr>, [])"
proof -
  have m: "memory r ! nat (pc r) = chClose" "inBounds r (pc r)"
    using assms(1) by (simp_all add: idiomAt_def inBounds_def)
  have "openScan (memory r) (pc r) 0 = Inr (pc r - 2)"
    using openScan_idiom [OF assms(1)] by simp
  then show ?thesis using m assms(2,3)
    by (simp add: stepLiteral_def step_def Program_Byte_def JumpToOpenLoop_def next_pc_def)
qed

lemma runLoop_step:
  "Program_Byte p (pc p) = Inr b \<Longrightarrow> b \<noteq> 0 \<Longrightarrow> step p = Inr (p', sent') \<Longrightarrow>
     runLoop (Suc n) p sent = runLoop n p' (sent @ sent')"
  by simp

declare runLoopLiteral.simps [simp del]

lemma literal_iteration:
  assumes id: "idiomAt (memory p) (pc p)" and ib: "inBounds p (memPtr p)"
    and ne: "memPtr p \<noteq> pc p" "memPtr p \<noteq> pc p + 1" "memPtr p \<noteq> pc p + 2"
    and w: "w \<noteq> 0"
  shows "runLoopLiteral (Suc (Suc k))
       (p\<lparr>memory := (memory p)[nat (memPtr p) := w], pc := pc p + 1\<rparr>) sent =
     runLoopLiteral k
       (if w - 1 = 0 then p\<lparr>memory := (memory p)[nat (memPtr p) := 0], pc := pc p + 3\<rparr>
        else p\<lparr>memory := (memory p)[nat (memPtr p) := w - 1], pc := pc p + 1\<rparr>) sent"
proof -
  let ?Q = "p\<lparr>memory := (memory p)[nat (memPtr p) := w], pc := pc p + 1\<rparr>"
  let ?R = "p\<lparr>memory := (memory p)[nat (memPtr p) := w - 1], pc := pc p + 2\<rparr>"
  have p0: "0 \<le> memPtr p" "nat (memPtr p) < length (memory p)"
    using ib unfolding inBounds_def by linarith+
  have idw: "\<And>x. idiomAt ((memory p)[nat (memPtr p) := x]) (pc p)"
    using id p0 ne by (intro idiomAt_update) simp_all
  have idQ: "idiomAt (memory ?Q) (pc ?Q - 1)" using idw by simp
  have ibQ: "inBounds ?Q (memPtr ?Q)" using ib by (simp add: inBounds_def)
  have cellQ: "memory ?Q ! nat (memPtr ?Q) \<noteq> 0" using p0 w by simp
  have byteQ: "Program_Byte ?Q (pc ?Q) = Inr chMinus"
    using idw [of w] by (simp add: Program_Byte_def inBounds_def idiomAt_def)
  have s1: "stepLiteral ?Q = Inr (?R, [])"
    using literal_minus [OF idQ ibQ cellQ] p0 by simp
  have r1: "runLoopLiteral (Suc (Suc k)) ?Q sent = runLoopLiteral (Suc k) ?R sent"
    using runLoopLiteral_step [OF byteQ _ s1] by simp
  have idR: "idiomAt (memory ?R) (pc ?R - 2)" using idw by simp
  have ibR: "inBounds ?R (memPtr ?R)" using ib by (simp add: inBounds_def)
  have byteR: "Program_Byte ?R (pc ?R) = Inr chClose"
    using idw [of "w - 1"] by (simp add: Program_Byte_def inBounds_def idiomAt_def)
  show ?thesis
  proof (cases "w - 1 = 0")
    case True
    then have "memory ?R ! nat (memPtr ?R) = 0" using p0 by simp
    from literal_close_zero [OF idR ibR this]
    have "stepLiteral ?R =
        Inr (p\<lparr>memory := (memory p)[nat (memPtr p) := 0], pc := pc p + 3\<rparr>, [])"
      using True by simp
    from runLoopLiteral_step [OF byteR _ this] r1 True show ?thesis by simp
  next
    case False
    then have "memory ?R ! nat (memPtr ?R) \<noteq> 0" using p0 by simp
    from literal_close_nonzero [OF idR ibR this]
    have "stepLiteral ?R =
        Inr (p\<lparr>memory := (memory p)[nat (memPtr p) := w - 1], pc := pc p + 1\<rparr>, [])"
      by simp
    from runLoopLiteral_step [OF byteR _ this] r1 False show ?thesis by simp
  qed
qed

lemma literal_loop:
  assumes id: "idiomAt (memory p) (pc p)" and ib: "inBounds p (memPtr p)"
    and ne: "memPtr p \<noteq> pc p" "memPtr p \<noteq> pc p + 1" "memPtr p \<noteq> pc p + 2"
  shows "unat w = Suc n \<Longrightarrow>
     runLoopLiteral (2 * Suc n + f)
       (p\<lparr>memory := (memory p)[nat (memPtr p) := w], pc := pc p + 1\<rparr>) sent =
     runLoopLiteral f (p\<lparr>memory := (memory p)[nat (memPtr p) := 0], pc := pc p + 3\<rparr>) sent"
proof (induction n arbitrary: w)
  case 0
  have "w = word_of_nat (unat w)" by simp
  with 0 have "w = 1" by simp
  then have w: "w \<noteq> 0" and w1: "w - 1 = 0" by simp_all
  from literal_iteration [OF id ib ne w, of f sent] w1 show ?case by simp
next
  case (Suc n)
  then have w: "w \<noteq> 0" by auto
  have u: "unat (w - 1) = Suc n" using Suc.prems w by (simp add: unat_minus_one)
  then have w1: "w - 1 \<noteq> 0" by auto
  have "runLoopLiteral (2 * Suc (Suc n) + f)
       (p\<lparr>memory := (memory p)[nat (memPtr p) := w], pc := pc p + 1\<rparr>) sent =
     runLoopLiteral (2 * Suc n + f)
       (p\<lparr>memory := (memory p)[nat (memPtr p) := w - 1], pc := pc p + 1\<rparr>) sent"
    using literal_iteration [OF id ib ne w, of "2 * Suc n + f" sent] w1 by simp
  then show ?case using Suc.IH [OF u] by simp
qed

lemma literal_clear:
  assumes id: "idiomAt (memory p) (pc p)" and ib: "inBounds p (memPtr p)"
    and ne: "memPtr p \<noteq> pc p" "memPtr p \<noteq> pc p + 1" "memPtr p \<noteq> pc p + 2"
  shows "runLoopLiteral (1 + 2 * unat (memory p ! nat (memPtr p)) + f) p sent =
     runLoopLiteral f (p\<lparr>memory := (memory p)[nat (memPtr p) := 0], pc := pc p + 3\<rparr>) sent"
proof (cases "memory p ! nat (memPtr p) = 0")
  case True
  have byte: "Program_Byte p (pc p) = Inr chOpen"
    using id by (simp add: Program_Byte_def inBounds_def idiomAt_def)
  have same: "(memory p)[nat (memPtr p) := 0] = memory p"
    using list_update_id [of "memory p" "nat (memPtr p)"] True by simp
  from literal_open_zero [OF id ib True]
  have "stepLiteral p =
      Inr (p\<lparr>memory := (memory p)[nat (memPtr p) := 0], pc := pc p + 3\<rparr>, [])"
    by (simp add: same)
  from runLoopLiteral_step [OF byte _ this, of f sent] True show ?thesis by simp
next
  case False
  have byte: "Program_Byte p (pc p) = Inr chOpen"
    using id by (simp add: Program_Byte_def inBounds_def idiomAt_def)
  obtain n where n: "unat (memory p ! nat (memPtr p)) = Suc n"
    using False by (metis not0_implies_Suc unat_eq_zero)
  have same: "(memory p)[nat (memPtr p) := memory p ! nat (memPtr p)] = memory p"
    by simp
  from literal_open_nonzero [OF id ib False]
  have "stepLiteral p =
      Inr (p\<lparr>memory := (memory p)[nat (memPtr p) := memory p ! nat (memPtr p)],
             pc := pc p + 1\<rparr>, [])"
    by (simp add: same)
  from runLoopLiteral_step [OF byte _ this, of "2 * Suc n + f" sent]
  have "runLoopLiteral (1 + 2 * Suc n + f) p sent =
      runLoopLiteral (2 * Suc n + f)
        (p\<lparr>memory := (memory p)[nat (memPtr p) := memory p ! nat (memPtr p)],
             pc := pc p + 1\<rparr>) sent"
    by simp
  then show ?thesis using literal_loop [OF id ib ne n, of f sent] n by simp
qed

text \<open>
  Claim C5, as amended: executing a loop-open byte that starts the clear idiom \<open>[-]\<close>
  zeroes the current cell, moves the program counter past the idiom and sends nothing.
  Provided the tape pointer does not point at one of the three bytes of the idiom
  itself, this is what executing the idiom literally does: for every value \<open>v\<close> of the
  current cell, \<open>1 + 2 v\<close> literal iterations (the loop-open byte, then \<open>v\<close> times a
  decrement and a loop-close byte) lead from the same state to the same state, with the
  same Ops sent, so that the two executions continue identically.
\<close>

theorem clear_idiom_equivalence:
  "(idiomAt (memory p) (pc p) \<and> inBounds p (memPtr p) \<longrightarrow>
      step p = Inr (p\<lparr>memory := (memory p)[nat (memPtr p) := 0], pc := pc p + 3\<rparr>, []) \<and>
      runLoop (Suc f) p sent =
        runLoop f (p\<lparr>memory := (memory p)[nat (memPtr p) := 0], pc := pc p + 3\<rparr>) sent) \<and>
   (idiomAt (memory p) (pc p) \<and> inBounds p (memPtr p) \<and>
    memPtr p \<noteq> pc p \<and> memPtr p \<noteq> pc p + 1 \<and> memPtr p \<noteq> pc p + 2 \<longrightarrow>
      runLoopLiteral (1 + 2 * unat (memory p ! nat (memPtr p)) + f) p sent =
        runLoopLiteral f (p\<lparr>memory := (memory p)[nat (memPtr p) := 0], pc := pc p + 3\<rparr>) sent)"
proof (intro conjI impI)
  assume a: "idiomAt (memory p) (pc p) \<and> inBounds p (memPtr p)"
  then show s: "step p =
      Inr (p\<lparr>memory := (memory p)[nat (memPtr p) := 0], pc := pc p + 3\<rparr>, [])"
    by (simp add: step_clear_idiom)
  have "Program_Byte p (pc p) = Inr chOpen"
    using a by (simp add: Program_Byte_def inBounds_def idiomAt_def)
  from runLoop_step [OF this _ s, of f sent]
  show "runLoop (Suc f) p sent =
        runLoop f (p\<lparr>memory := (memory p)[nat (memPtr p) := 0], pc := pc p + 3\<rparr>) sent"
    by simp
next
  assume "idiomAt (memory p) (pc p) \<and> inBounds p (memPtr p) \<and>
    memPtr p \<noteq> pc p \<and> memPtr p \<noteq> pc p + 1 \<and> memPtr p \<noteq> pc p + 2"
  then show "runLoopLiteral (1 + 2 * unat (memory p ! nat (memPtr p)) + f) p sent =
        runLoopLiteral f (p\<lparr>memory := (memory p)[nat (memPtr p) := 0], pc := pc p + 3\<rparr>) sent"
    using literal_clear [of p f sent] by blast
qed

theorem clear_idiom_equivalence_witness:
  "step \<lparr>memory = [chOpen, chMinus, chClose, 0, 3], dataStart = 4, pc = 0, r8a = 0, r8b = 0,
      r16a = 0, r16b = 0, r32a = 0, r32b = 0, memPtr = 4\<rparr> =
     Inr (\<lparr>memory = [chOpen, chMinus, chClose, 0, 0], dataStart = 4, pc = 3, r8a = 0, r8b = 0,
      r16a = 0, r16b = 0, r32a = 0, r32b = 0, memPtr = 4\<rparr>, []) \<and>
   runLoopLiteral 8 \<lparr>memory = [chOpen, chMinus, chClose, 0, 3], dataStart = 4, pc = 0, r8a = 0,
      r8b = 0, r16a = 0, r16b = 0, r32a = 0, r32b = 0, memPtr = 4\<rparr> [] =
     Some (Inr (\<lparr>memory = [chOpen, chMinus, chClose, 0, 0], dataStart = 4, pc = 3, r8a = 0,
      r8b = 0, r16a = 0, r16b = 0, r32a = 0, r32b = 0, memPtr = 4\<rparr>, []))"
proof -
  let ?p = "\<lparr>memory = [chOpen, chMinus, chClose, 0, 3], dataStart = 4, pc = 0, r8a = 0, r8b = 0,
      r16a = 0, r16b = 0, r32a = 0, r32b = 0, memPtr = 4\<rparr>"
  let ?q = "\<lparr>memory = [chOpen, chMinus, chClose, 0, 0], dataStart = 4, pc = 3, r8a = 0, r8b = 0,
      r16a = 0, r16b = 0, r32a = 0, r32b = 0, memPtr = 4\<rparr>"
  have pre: "idiomAt (memory ?p) (pc ?p) \<and> inBounds ?p (memPtr ?p) \<and>
    memPtr ?p \<noteq> pc ?p \<and> memPtr ?p \<noteq> pc ?p + 1 \<and> memPtr ?p \<noteq> pc ?p + 2"
    by (simp add: idiomAt_def inBounds_def)
  have q: "?p\<lparr>memory := (memory ?p)[nat (memPtr ?p) := 0], pc := pc ?p + 3\<rparr> = ?q"
    by simp
  have halt: "runLoopLiteral (Suc 0) ?q [] = Some (Inr (?q, []))"
    by (simp add: runLoopLiteral.simps Program_Byte_def inBounds_def)
  from clear_idiom_equivalence [of ?p "Suc 0" "[]"] pre
  have "step ?p = Inr (?q, [])"
    and "runLoopLiteral (1 + 2 * unat (memory ?p ! nat (memPtr ?p)) + Suc 0) ?p [] =
      runLoopLiteral (Suc 0) ?q []"
    unfolding q by blast+
  then show ?thesis using halt by simp
qed

lemma runLoopLiteral_numeral:
  "runLoopLiteral (numeral k) p sent =
     (case Program_Byte p (pc p) of
        Inl e \<Rightarrow> Some (Inl e)
      | Inr b \<Rightarrow>
          if b = 0 then Some (Inr (p, sent))
          else (case stepLiteral p of
                  Inl e \<Rightarrow> Some (Inl e)
                | Inr (p', sent') \<Rightarrow> runLoopLiteral (pred_numeral k) p' (sent @ sent')))"
  by (simp add: numeral_eq_Suc runLoopLiteral.simps)

text \<open>
  With the tape pointer on a byte of the idiom the two executions differ. The program
  \<open><<<<<<<<<<<[-]\<close> moves the pointer to index 13, the loop-close byte of its own
  idiom. The machine zeroes that byte and halts; executed literally, the decrement
  turns the byte into 92, which is no instruction, and the program halts with 92 there.
\<close>

theorem clear_idiom_on_itself:
  "NewProgram (bytes ''<<<<<<<<<<<[-]'') =
     Inr \<lparr>memory = [chLeft, chLeft, chLeft, chLeft, chLeft, chLeft, chLeft, chLeft, chLeft,
            chLeft, chLeft, chOpen, chMinus, chClose] @ replicate 30010 0,
          dataStart = 24, pc = 0, r8a = 0, r8b = 0, r16a = 0, r16b = 0, r32a = 0, r32b = 0,
          memPtr = 24\<rparr> \<and>
   Run 3 \<lparr>memory = [chLeft, chLeft, chLeft, chLeft, chLeft, chLeft, chLeft, chLeft, chLeft,
            chLeft, chLeft, chOpen, chMinus, chClose] @ replicate 30010 0,
          dataStart = 24, pc = 0, r8a = 0, r8b = 0, r16a = 0, r16b = 0, r32a = 0, r32b = 0,
          memPtr = 24\<rparr> =
     Some (Inr (\<lparr>memory = [chLeft, chLeft, chLeft, chLeft, chLeft, chLeft, chLeft, chLeft,
            chLeft, chLeft, chLeft, chOpen, chMinus, 0] @ replicate 30010 0,
          dataStart = 24, pc = 14, r8a = 0, r8b = 0, r16a = 0, r16b = 0, r32a = 0, r32b = 0,
          memPtr = 13\<rparr>, [])) \<and>
   RunLiteral 5 \<lparr>memory = [chLeft, chLeft, chLeft, chLeft, chLeft, chLeft, chLeft, chLeft,
            chLeft, chLeft, chLeft, chOpen, chMinus, chClose] @ replicate 30010 0,
          dataStart = 24, pc = 0, r8a = 0, r8b = 0, r16a = 0, r16b = 0, r32a = 0, r32b = 0,
          memPtr = 24\<rparr> =
     Some (Inr (\<lparr>memory = [chLeft, chLeft, chLeft, chLeft, chLeft, chLeft, chLeft, chLeft,
            chLeft, chLeft, chLeft, chOpen, chMinus, 92] @ replicate 30010 0,
          dataStart = 24, pc = 14, r8a = 0, r8b = 0, r16a = 0, r16b = 0, r32a = 0, r32b = 0,
          memPtr = 13\<rparr>, []))"
  by (simp add: NewProgram_def ValidateBrainfuck_def bytes_def isInstr_def Run_def RunLiteral_def
      runLoop_numeral runLoopLiteral_numeral runLoopLiteral.simps stepLiteral_def
      vm_eval jump_eval)

section \<open>Properties of the code generator\<close>

subsection \<open>Increment and decrement statements\<close>

lemma bindG_simps [simp]:
  "bindG None f = None" "bindG (Some (Inl e)) f = Some (Inl e)" "bindG (Some (Inr x)) f = f x"
  by (simp_all add: bindG_def)

lemma point_fields [simp]:
  "ptr (point g a) = a" "loopStarts (point g a) = loopStarts g" "label (point g a) = label g"
  "labelTable (point g a) = labelTable g"
  by (simp_all add: point_def writeString_def Let_def)

lemma point_from_zero:
  "ptr g = 0 \<Longrightarrow>
     sb (point g a) = sb g @ replicate (nat \<bar>a\<bar>) (if a < 0 then CHR ''<'' else CHR ''>'')"
  by (simp add: point_def writeString_def Let_def)

text \<open>
  Claim C9: an \<open>inc [addr], n\<close> or \<open>dec [addr], n\<close> statement generated with the cursor
  at 0 appends to the output exactly \<open>|addr|\<close> step markers, all step-left when
  \<open>addr\<close> is negative and all step-right otherwise, followed by exactly \<open>n\<close> increment
  (respectively decrement) markers, and nothing else; with the count operand omitted
  \<open>n\<close> is 1. (A count that evaluates to a negative number emits no marker; the lexer
  has no negative literals.) The cursor ends at \<open>addr\<close>.
\<close>

theorem inc_dec_emission:
  "ptr g = 0 \<and> (name i = ''inc'' \<or> name i = ''dec'') \<and> dst i = Some (ExprAddr e) \<and>
   expr_int (lookup g) e = Some (Inr addr) \<and>
   (src i = None \<and> n = 1 \<or> (\<exists>s. src i = Some s \<and> expr_int (lookup g) s = Some (Inr n))) \<longrightarrow>
     instr g i =
       Some (Inr (g\<lparr>sb := sb g @
                      replicate (nat \<bar>addr\<bar>) (if addr < 0 then CHR ''<'' else CHR ''>'') @
                      replicate (nat n) (if name i = ''inc'' then CHR ''+'' else CHR ''-''),
                    ptr := addr, label := []\<rparr>))"
proof
  assume a: "ptr g = 0 \<and> (name i = ''inc'' \<or> name i = ''dec'') \<and> dst i = Some (ExprAddr e) \<and>
   expr_int (lookup g) e = Some (Inr addr) \<and>
   (src i = None \<and> n = 1 \<or> (\<exists>s. src i = Some s \<and> expr_int (lookup g) s = Some (Inr n)))"
  let ?g1 = "point g addr"
  have lk: "lookup ?g1 = lookup g" by (rule ext) (simp add: lookup_def)
  have ad: "addrOperand g (dst i) ''first argument must be an address'' = Some (Inr addr)"
    using a by (simp add: addrOperand_def)
  have tm: "timesOperand ?g1 (src i) = Some (Inr n)"
    using a by (auto simp add: timesOperand_def lk)
  have g1: "?g1 = g\<lparr>sb := sb g @ replicate (nat \<bar>addr\<bar>) (if addr < 0 then CHR ''<'' else CHR ''>''),
      ptr := addr\<rparr>"
    using a by (simp add: point_def writeString_def Let_def)
  from a have "name i = ''inc'' \<or> name i = ''dec''" by simp
  then show "instr g i =
       Some (Inr (g\<lparr>sb := sb g @
                      replicate (nat \<bar>addr\<bar>) (if addr < 0 then CHR ''<'' else CHR ''>'') @
                      replicate (nat n) (if name i = ''inc'' then CHR ''+'' else CHR ''-''),
                    ptr := addr, label := []\<rparr>))"
  proof
    assume "name i = ''inc''"
    then show ?thesis
      by (simp add: instr_def ad tm Let_def ok_def) (simp add: g1 writeString_def)
  next
    assume "name i = ''dec''"
    then show ?thesis
      by (simp add: instr_def ad tm Let_def ok_def) (simp add: g1 writeString_def)
  qed
qed

theorem inc_dec_emission_witness:
  "instr newGen \<lparr>name = ''inc'', dst = Some (ExprAddr (ExprInt 3)), src = Some (ExprInt 5)\<rparr> =
     Some (Inr (newGen\<lparr>sb := ''>>>+++++'', ptr := 3\<rparr>)) \<and>
   instr newGen \<lparr>name = ''dec'', dst = Some (ExprAddr (ExprInt 2)), src = None\<rparr> =
     Some (Inr (newGen\<lparr>sb := ''>>-'', ptr := 2\<rparr>))"
proof -
  let ?i = "\<lparr>name = ''inc'', dst = Some (ExprAddr (ExprInt 3)), src = Some (ExprInt 5)\<rparr>"
  let ?d = "\<lparr>name = ''dec'', dst = Some (ExprAddr (ExprInt 2)), src = None\<rparr>"
  have e: "expr_int (lookup newGen) (ExprInt 3) = Some (Inr 3)"
    "expr_int (lookup newGen) (ExprInt 5) = Some (Inr 5)"
    "expr_int (lookup newGen) (ExprInt 2) = Some (Inr 2)"
    by (simp_all add: expr_int.simps)
  have "instr newGen ?i =
       Some (Inr (newGen\<lparr>sb := sb newGen @
                      replicate (nat \<bar>3\<bar>) (if (3::int) < 0 then CHR ''<'' else CHR ''>'') @
                      replicate (nat 5) (if name ?i = ''inc'' then CHR ''+'' else CHR ''-''),
                    ptr := 3, label := []\<rparr>))"
    using inc_dec_emission [of newGen ?i "ExprInt 3" 3 5] e by (simp add: newGen_def)
  moreover have "instr newGen ?d =
       Some (Inr (newGen\<lparr>sb := sb newGen @
                      replicate (nat \<bar>2\<bar>) (if (2::int) < 0 then CHR ''<'' else CHR ''>'') @
                      replicate (nat 1) (if name ?d = ''inc'' then CHR ''+'' else CHR ''-''),
                    ptr := 2, label := []\<rparr>))"
    using inc_dec_emission [of newGen ?d "ExprInt 2" 2 1] e by (simp add: newGen_def)
  ultimately show ?thesis by (simp add: newGen_def numeral_eq_Suc)
qed

subsection \<open>The loop stack\<close>

lemma writeString_fields [simp]:
  "ptr (writeString g s) = ptr g" "loopStarts (writeString g s) = loopStarts g"
  "label (writeString g s) = label g" "labelTable (writeString g s) = labelTable g"
  by (simp_all add: writeString_def)

lemma pushLoopStart_loopStarts [simp]:
  "loopStarts (pushLoopStart g v) = loopStarts g @ [v]"
  by (simp add: pushLoopStart_def)

lemma popLoopStart_Inr:
  "popLoopStart g = Inr (v, g') \<Longrightarrow> length (loopStarts g) = Suc (length (loopStarts g'))"
  by (cases "loopStarts g" rule: rev_cases) (auto simp add: popLoopStart_def)

lemma popLoopStart_empty: "loopStarts g = [] \<Longrightarrow> popLoopStart g = Inl IndexOutOfRange"
  by (simp add: popLoopStart_def)

lemma bindG_Some_Inr:
  "bindG m f = Some (Inr y) \<Longrightarrow> \<exists>x. m = Some (Inr x) \<and> f x = Some (Inr y)"
  by (cases m) (auto simp add: bindG_def split: sum.splits)

lemma bindG_Some_InrE:
  assumes "bindG m f = Some (Inr y)"
  obtains x where "m = Some (Inr x)" "f x = Some (Inr y)"
  using bindG_Some_Inr [OF assms] by blast

lemma ok_Inr [simp]: "ok x = Some (Inr y) \<longleftrightarrow> x = y"
  by (simp add: ok_def)

lemma loopStart_loopStarts [simp]: "loopStarts (loopStart g) = loopStarts g @ [ptr g]"
  by (simp add: loopStart_def)

lemma loopEnd_Inr:
  "loopEnd g = Inr g' \<Longrightarrow> length (loopStarts g) = Suc (length (loopStarts g'))"
  by (cases "loopStarts g" rule: rev_cases) (auto simp add: loopEnd_def popLoopStart_def)

text \<open>The loop-stack depth after a successful instruction, by instruction name.\<close>

lemma instr_while:
  "name i = ''while'' \<Longrightarrow> instr g i = Some (Inr g') \<Longrightarrow>
     length (loopStarts g') = length (loopStarts g) + 1"
  by (auto simp add: instr_def elim!: bindG_Some_InrE)

lemma instr_endwhile:
  "name i = ''endwhile'' \<Longrightarrow> instr g i = Some (Inr g') \<Longrightarrow>
     length (loopStarts g') + 1 = length (loopStarts g)"
  by (auto simp add: instr_def elim!: bindG_Some_InrE dest!: popLoopStart_Inr loopEnd_Inr
      split: option.splits expr.splits)

lemma instr_if:
  "name i = ''if'' \<Longrightarrow> instr g i = Some (Inr g') \<Longrightarrow>
     length (loopStarts g') = length (loopStarts g) + 2"
  by (auto simp add: instr_def Let_def elim!: bindG_Some_InrE)

lemma instr_else:
  "name i = ''else'' \<Longrightarrow> instr g i = Some (Inr g') \<Longrightarrow>
     length (loopStarts g') = length (loopStarts g) \<and> 2 \<le> length (loopStarts g)"
  by (auto simp add: instr_def Let_def elim!: bindG_Some_InrE dest!: popLoopStart_Inr)

lemma instr_endif:
  "name i = ''endif'' \<Longrightarrow> instr g i = Some (Inr g') \<Longrightarrow>
     length (loopStarts g') + 2 = length (loopStarts g)"
  by (auto simp add: instr_def Let_def elim!: bindG_Some_InrE dest!: popLoopStart_Inr)

lemma instr_other:
  "name i \<noteq> ''while'' \<Longrightarrow> name i \<noteq> ''endwhile'' \<Longrightarrow> name i \<noteq> ''if'' \<Longrightarrow>
   name i \<noteq> ''else'' \<Longrightarrow> name i \<noteq> ''endif'' \<Longrightarrow> instr g i = Some (Inr g') \<Longrightarrow>
     length (loopStarts g') = length (loopStarts g)"
  by (auto simp add: instr_def Let_def elim!: bindG_Some_InrE split: if_splits option.splits)

lemma bindG_assoc: "bindG (bindG m f) h = bindG m (\<lambda>x. bindG (f x) h)"
  by (cases m) (auto simp add: bindG_def split: sum.splits)

lemma genStmts_append:
  "genStmts g (xs @ ys) = bindG (genStmts g xs) (\<lambda>g'. genStmts g' ys)"
  by (induction xs arbitrary: g) (simp_all add: ok_def bindG_assoc)

lemma nest_depth:
  "nest ks ss = Some ks' \<Longrightarrow> genStmts g ss = Some (Inr g') \<Longrightarrow>
     length (loopStarts g') + sum_list (map entries ks) =
     length (loopStarts g) + sum_list (map entries ks')"
proof (induction ks ss arbitrary: g rule: nest.induct)
  case (1 ks)
  then show ?case by simp
next
  case (2 ks l ss)
  then show ?case by (simp add: ok_def)
next
  case (3 ks i ss)
  from "3.prems"(2) obtain g1 where i1: "instr g i = Some (Inr g1)"
    and rest: "genStmts g1 ss = Some (Inr g')"
    by (auto elim!: bindG_Some_InrE)
  show ?case
  proof (cases "name i = ''while''")
    case True
    then have "nest (InWhile # ks) ss = Some ks'" using "3.prems"(1) by simp
    from "3.IH"(1) [OF True this rest] instr_while [OF True i1] show ?thesis by simp
  next
    case nw: False
    show ?thesis
    proof (cases "name i = ''endwhile''")
      case True
      with nw "3.prems"(1) obtain kt where ks: "ks = InWhile # kt" and n: "nest kt ss = Some ks'"
        by (auto split: list.splits construct.splits)
      from "3.IH"(2) [OF nw True ks refl n rest] instr_endwhile [OF True i1] ks
      show ?thesis by simp
    next
      case ne: False
      show ?thesis
      proof (cases "name i = ''if''")
        case True
        then have "nest (InIf # ks) ss = Some ks'" using "3.prems"(1) nw ne by simp
        from "3.IH"(3) [OF nw ne True this rest] instr_if [OF True i1] show ?thesis by simp
      next
        case ni: False
        show ?thesis
        proof (cases "name i = ''else''")
          case True
          with nw ne ni "3.prems"(1) obtain kt where ks: "ks = InIf # kt"
            and n: "nest (InElse # kt) ss = Some ks'"
            by (auto split: list.splits construct.splits)
          from "3.IH"(4) [OF nw ne ni True ks refl n rest] instr_else [OF True i1] ks
          show ?thesis by simp
        next
          case nl: False
          show ?thesis
          proof (cases "name i = ''endif''")
            case True
            with nw ne ni nl "3.prems"(1) consider
              kt where "ks = InIf # kt" "nest kt ss = Some ks'"
              | kt where "ks = InElse # kt" "nest kt ss = Some ks'"
              by (auto split: list.splits construct.splits)
            then show ?thesis
            proof cases
              case 1
              from "3.IH"(5) [OF nw ne ni nl True 1(1) refl 1(2) rest] instr_endif [OF True i1] 1(1)
              show ?thesis by simp
            next
              case 2
              from "3.IH"(6) [OF nw ne ni nl True 2(1) refl 2(2) rest] instr_endif [OF True i1] 2(1)
              show ?thesis by simp
            qed
          next
            case nd: False
            then have "nest ks ss = Some ks'" using "3.prems"(1) nw ne ni nl by simp
            from "3.IH"(7) [OF nw ne ni nl nd this rest] instr_other [OF nw ne ni nl nd i1]
            show ?thesis by simp
          qed
        qed
      qed
    qed
  qed
qed

lemma matched_depth:
  "matched ss \<Longrightarrow> genStmts g ss = Some (Inr g') \<Longrightarrow>
     length (loopStarts g') = length (loopStarts g)"
  using nest_depth [of "[]" ss "[]" g g'] by (simp add: matched_def)

lemma endwhile_underflow:
  assumes "name i = ''endwhile''" "loopStarts g = []"
  shows "instr g i \<noteq> Some (Inr g')"
  using instr_endwhile [OF assms(1), of g g'] assms(2) by auto

lemma endwhile_underflow_plain:
  assumes "name i = ''endwhile''" "loopStarts g = []" "\<forall>e. dst i \<noteq> Some (ExprAddr e)"
  shows "instr g i = Some (Inl IndexOutOfRange)"
  using assms
  by (simp add: instr_def loopEnd_def popLoopStart_def split: option.splits expr.splits)

lemma else_endif_underflow:
  assumes "name i = ''else'' \<or> name i = ''endif''" "length (loopStarts g) < 2"
  shows "instr g i = Some (Inl IndexOutOfRange)"
proof (cases "loopStarts g" rule: rev_cases)
  case Nil
  with assms(1) show ?thesis by (auto simp add: instr_def popLoopStart_def)
next
  case (snoc ys y)
  with assms(2) have "ys = []" by simp
  with snoc assms(1) show ?thesis by (auto simp add: instr_def popLoopStart_def)
qed

lemma closer_after_matched:
  assumes "matched pre" "name i = ''endwhile'' \<or> name i = ''else'' \<or> name i = ''endif''"
  shows "generate (pre @ StmtInstr i # rest) \<noteq> Some (Inr out)"
proof
  assume "generate (pre @ StmtInstr i # rest) = Some (Inr out)"
  then obtain gf where "genStmts newGen (pre @ StmtInstr i # rest) = Some (Inr gf)"
    by (auto simp add: generate_def elim!: bindG_Some_InrE)
  then obtain g1 where pre: "genStmts newGen pre = Some (Inr g1)"
    and "genStmts g1 (StmtInstr i # rest) = Some (Inr gf)"
    by (auto simp add: genStmts_append elim!: bindG_Some_InrE)
  then obtain g2 where i: "instr g1 i = Some (Inr g2)"
    by (auto elim!: bindG_Some_InrE)
  from matched_depth [OF assms(1) pre] have e: "loopStarts g1 = []"
    by (simp add: newGen_def)
  from assms(2) show False
  proof (elim disjE)
    assume "name i = ''endwhile''"
    from endwhile_underflow [OF this e, of g2] i show False by simp
  next
    assume "name i = ''else''"
    then have "instr g1 i = Some (Inl IndexOutOfRange)"
      using else_endif_underflow [of i g1] e by simp
    with i show False by simp
  next
    assume "name i = ''endif''"
    then have "instr g1 i = Some (Inl IndexOutOfRange)"
      using else_endif_underflow [of i g1] e by simp
    with i show False by simp
  qed
qed

text \<open>
  Claim C8, as amended: generating a matched construct (a statement list in which every
  \<open>while\<close> is closed by an \<open>endwhile\<close> and every \<open>if\<close>, with or without \<open>else\<close>, by
  an \<open>endif\<close>, properly nested) leaves the loop-stack depth as it found it, whenever
  generation succeeds. Generating an \<open>endwhile\<close> on the empty loop stack never
  succeeds, and fails with the index panic when it has no address operand; generating
  an \<open>else\<close> or \<open>endif\<close> with fewer than two entries on the loop stack fails with the
  index panic. So a closing statement that follows only matched constructs from the
  start of the program never yields output. Underflow is the only check: a closing
  statement that meets an open construct of the other kind is generated.
\<close>

theorem loop_stack_discipline:
  "(matched ss \<and> genStmts g ss = Some (Inr g') \<longrightarrow>
      length (loopStarts g') = length (loopStarts g)) \<and>
   (name i = ''endwhile'' \<and> loopStarts g = [] \<longrightarrow>
      (\<forall>g2. instr g i \<noteq> Some (Inr g2)) \<and>
      ((\<forall>e. dst i \<noteq> Some (ExprAddr e)) \<longrightarrow> instr g i = Some (Inl IndexOutOfRange))) \<and>
   ((name i = ''else'' \<or> name i = ''endif'') \<and> length (loopStarts g) < 2 \<longrightarrow>
      instr g i = Some (Inl IndexOutOfRange)) \<and>
   (matched pre \<and> (name i = ''endwhile'' \<or> name i = ''else'' \<or> name i = ''endif'') \<longrightarrow>
      (\<forall>out. generate (pre @ StmtInstr i # rest) \<noteq> Some (Inr out)))"
  using matched_depth [of ss g g'] endwhile_underflow [of i g] endwhile_underflow_plain [of i g]
    else_endif_underflow [of i g] closer_after_matched [of pre i rest]
  by blast

theorem loop_stack_discipline_witness:
  "\<exists>g'. genStmts newGen
       [StmtInstr \<lparr>name = ''while'', dst = Some (ExprAddr (ExprInt 1)), src = None\<rparr>,
        StmtInstr \<lparr>name = ''if'', dst = Some (ExprAddr (ExprInt 2)),
                    src = Some (ExprAddr (ExprInt 3))\<rparr>,
        StmtInstr \<lparr>name = ''inc'', dst = Some (ExprAddr (ExprInt 4)), src = None\<rparr>,
        StmtInstr \<lparr>name = ''else'', dst = None, src = None\<rparr>,
        StmtInstr \<lparr>name = ''endif'', dst = None, src = None\<rparr>,
        StmtInstr \<lparr>name = ''endwhile'', dst = None, src = None\<rparr>] = Some (Inr g') \<and>
     sb g' = ''>[>>[-]+<[[-]>[-]>+<<]>[<]<]'' \<and> length (loopStarts g') = 0"
proof -
  let ?ss = "[StmtInstr \<lparr>name = ''while'', dst = Some (ExprAddr (ExprInt 1)), src = None\<rparr>,
        StmtInstr \<lparr>name = ''if'', dst = Some (ExprAddr (ExprInt 2)),
                    src = Some (ExprAddr (ExprInt 3))\<rparr>,
        StmtInstr \<lparr>name = ''inc'', dst = Some (ExprAddr (ExprInt 4)), src = None\<rparr>,
        StmtInstr \<lparr>name = ''else'', dst = None, src = None\<rparr>,
        StmtInstr \<lparr>name = ''endif'', dst = None, src = None\<rparr>,
        StmtInstr \<lparr>name = ''endwhile'', dst = None, src = None\<rparr>]"
  let ?g = "\<lparr>sb = ''>[>>[-]+<[[-]>[-]>+<<]>[<]<]'', ptr = 1, label = [],
      labelTable = Map.empty, loopStarts = []\<rparr>"
  have m: "matched ?ss" by (simp add: matched_def)
  have r: "genStmts newGen ?ss = Some (Inr ?g)"
    by (simp add: newGen_def instr_def addrOperand_def timesOperand_def expr_int.simps lookup_def
        point_def writeString_def loopStart_def loopEnd_def pushLoopStart_def popLoopStart_def
        ok_def Let_def numeral_eq_Suc)
  from loop_stack_discipline [of ?ss newGen ?g] m r
  have "length (loopStarts ?g) = length (loopStarts newGen)" by blast
  with r show ?thesis by (intro exI [of _ ?g]) (simp add: newGen_def)
qed

text \<open>
  An \<open>endwhile\<close> with no open \<open>while\<close> is generated when an \<open>if\<close> is open: it pops
  one of the two entries the \<open>if\<close> pushed, and generation returns complete output.
\<close>

theorem endwhile_closes_if:
  "nest [] [StmtInstr \<lparr>name = ''if'', dst = Some (ExprAddr (ExprInt 0)),
                      src = Some (ExprAddr (ExprInt 1))\<rparr>,
            StmtInstr \<lparr>name = ''endwhile'', dst = None, src = None\<rparr>] = None \<and>
   generate [StmtInstr \<lparr>name = ''if'', dst = Some (ExprAddr (ExprInt 0)),
                        src = Some (ExprAddr (ExprInt 1))\<rparr>,
             StmtInstr \<lparr>name = ''endwhile'', dst = None, src = None\<rparr>] =
     Some (Inr ''>[-]+<[[-]>[-]]'')"
  by (simp add: generate_def newGen_def instr_def addrOperand_def expr_int.simps lookup_def
      point_def writeString_def loopEnd_def pushLoopStart_def popLoopStart_def ok_def Let_def)

end
